theory Spec2Isabelle
  imports Complex_Main "HOL-Library.Sublist"
begin

section \<open>Python strings\<close>

text \<open>
  Text is modelled as \<^typ>\<open>string\<close>, one \<^typ>\<open>char\<close> per code point: the model
  covers text whose code points are below 256.  On these, \<^verbatim>\<open>str.lower\<close> maps
  \<^verbatim>\<open>A\<close>..\<^verbatim>\<open>Z\<close> and the capital letters 192..222 (but not the multiplication
  sign, 215) to the letter 32 places further and leaves every other character alone; the
  whitespace of \<^verbatim>\<open>str.split()\<close> and \<^verbatim>\<open>str.strip()\<close> is that of
  \<^verbatim>\<open>str.isspace\<close>: tab, line feed, vertical tab, form feed, carriage return, the
  separators 28..31, the space, the next-line character 133 and the no-break space 160.
\<close>

definition lower_char :: "char \<Rightarrow> char" where
  "lower_char c =
     (let n = (of_char c :: nat)
      in if (65 \<le> n \<and> n \<le> 90) \<or> (192 \<le> n \<and> n \<le> 222 \<and> n \<noteq> 215) then char_of (n + 32)
         else c)"

definition lower :: "string \<Rightarrow> string" where
  "lower s = map lower_char s"

definition isspace :: "char \<Rightarrow> bool" where
  "isspace c =
     (let n = (of_char c :: nat)
      in (9 \<le> n \<and> n \<le> 13) \<or> (28 \<le> n \<and> n \<le> 32) \<or> n = 133 \<or> n = 160)"

text \<open>
  \<^verbatim>\<open>s.replace(old, new)\<close>: every non-overlapping occurrence of \<^verbatim>\<open>old\<close>, scanning from
  the left, is replaced by \<^verbatim>\<open>new\<close>; an empty \<^verbatim>\<open>old\<close> matches before every
  character and at the end.
\<close>

function replace :: "string \<Rightarrow> string \<Rightarrow> string \<Rightarrow> string" where
  "replace old new [] = (if old = [] then new else [])"
| "replace old new (c # cs) =
     (if old = [] then new @ concat (map (\<lambda>x. x # new) (c # cs))
      else if prefix old (c # cs) then new @ replace old new (drop (length old) (c # cs))
      else c # replace old new cs)"
  by pat_completeness auto
termination
  by (relation "measure (\<lambda>(old, new, s). length s)") auto

text \<open>
  \<^verbatim>\<open>s.split()\<close> with no separator: the maximal runs of non-whitespace characters,
  in order; no empty word is produced.  \<open>split_acc\<close> carries the word being read.
\<close>

fun split_acc :: "string \<Rightarrow> string \<Rightarrow> string list" where
  "split_acc w [] = (if w = [] then [] else [w])"
| "split_acc w (c # cs) =
     (if isspace c then (if w = [] then split_acc [] cs else w # split_acc [] cs)
      else split_acc (w @ [c]) cs)"

definition split :: "string \<Rightarrow> string list" where
  "split s = split_acc [] s"

text \<open>\<^verbatim>\<open>s.strip()\<close>: leading and trailing whitespace removed.\<close>

definition strip :: "string \<Rightarrow> string" where
  "strip s = rev (dropWhile isspace (rev (dropWhile isspace s)))"

text \<open>\<^verbatim>\<open>sep.join(xs)\<close>.\<close>

fun join :: "string \<Rightarrow> string list \<Rightarrow> string" where
  "join sep [] = []"
| "join sep [x] = x"
| "join sep (x # y # ys) = x @ sep @ join sep (y # ys)"

text \<open>\<^verbatim>\<open>a in b\<close> on strings: \<^verbatim>\<open>a\<close> occurs in \<^verbatim>\<open>b\<close> as a contiguous substring.\<close>

definition str_in :: "string \<Rightarrow> string \<Rightarrow> bool" where
  "str_in a b = sublist a b"

section \<open>The ignore list\<close>

definition normalize_text :: "string \<Rightarrow> string" where
  "normalize_text text = replace '' '' [] (replace ''-'' [] (replace ''.'' [] (lower text)))"

text \<open>
  \<^verbatim>\<open>should_ignore(entity_text, ignore_terms, entity_type=None)\<close>.  The loop over the
  words returns at the first word that matches.
\<close>

fun ignore_word_loop :: "string set \<Rightarrow> string list \<Rightarrow> bool" where
  "ignore_word_loop ignore_terms [] = False"
| "ignore_word_loop ignore_terms (word # words) =
     (if word \<in> ignore_terms then True
      else if normalize_text word \<in> normalize_text ` ignore_terms then True
      else ignore_word_loop ignore_terms words)"

definition tech_domain_terms :: "string list" where
  "tech_domain_terms = [''.net'', ''asp'', ''flask'', ''django'', ''rails'']"

definition should_ignore :: "string \<Rightarrow> string set \<Rightarrow> string option \<Rightarrow> bool" where
  "should_ignore entity_text ignore_terms entity_type =
     (let entity_lower = lower entity_text;
          normalized_entity = normalize_text entity_text
      in if entity_lower \<in> ignore_terms then True
         else if normalized_entity \<in> normalize_text ` ignore_terms then True
         else if ignore_word_loop ignore_terms (split entity_lower) then True
         else if entity_type = Some ''URL''
                 \<and> list_ex (\<lambda>tech_term. str_in tech_term entity_lower) tech_domain_terms
         then True
         else False)"

text \<open>The module constant \<^verbatim>\<open>DEFAULT_IGNORE_TERMS\<close>, a set literal (some terms are
  written twice in the source).\<close>

definition DEFAULT_IGNORE_TERMS :: "string set" where
  "DEFAULT_IGNORE_TERMS = set [
    ''git'', ''github'', ''gitlab'', ''bitbucket'', ''python'', ''java'',
    ''javascript'', ''typescript'', ''c++'', ''c#'', ''ruby'', ''go'', ''rust'',
    ''php'', ''perl'', ''react'', ''angular'', ''vue'', ''svelte'', ''jquery'',
    ''node'', ''nodejs'', ''express'', ''django'', ''flask'', ''spring'', ''rails'',
    ''laravel'', ''symfony'', ''aws'', ''azure'', ''gcp'', ''cloud'', ''docker'',
    ''kubernetes'', ''terraform'', ''sql'', ''mysql'', ''postgresql'', ''mongodb'',
    ''oracle'', ''redis'', ''cassandra'', ''linux'', ''unix'', ''windows'', ''macos'',
    ''ubuntu'', ''debian'', ''fedora'', ''centos'', ''agile'', ''scrum'', ''kanban'',
    ''jira'', ''confluence'', ''trello'', ''jenkins'', ''circleci'', ''travis'',
    ''github actions'', ''gitlab ci'', ''bitbucket pipelines'', ''selenium'',
    ''cypress'', ''jest'', ''mocha'', ''chai'', ''jasmine'', ''pytest'', ''unittest'',
    ''docker-compose'', ''vagrant'', ''ansible'', ''puppet'', ''chef'',
    ''elasticsearch'', ''logstash'', ''kibana'', ''grafana'', ''prometheus'',
    ''mongodb'', ''cassandra'', ''hadoop'', ''spark'', ''flink'', ''redis'',
    ''memcached'', ''rabbitmq'', ''kafka'', ''active directory'', ''oauth'',
    ''openid'', ''jwt'', ''saml'', ''ldap'', ''rest'', ''soap'', ''graphql'',
    ''websocket'', ''http'', ''https'', ''tcp'', ''udp'', ''ip'', ''dns'', ''dhcp'',
    ''ssl'', ''tls'', ''ssh'', ''ftp'', ''sftp'', ''scp'', ''http2'', ''http3'',
    ''quic'', ''websocket'', ''json'', ''xml'', ''yaml'', ''csv'', ''protobuf'',
    ''html'', ''css'', ''scss'', ''less'', ''sass'', ''bootstrap'', ''tailwind'',
    ''materialize'', ''foundation'', ''webpack'', ''gulp'', ''grunt'', ''parcel'',
    ''vite'', ''babel'', ''typescript'', ''eslint'', ''prettier'', ''ASCII'',
    ''UTF-8'', ''ISO-8859-1'', ''UTF-16'', ''UTF-32'', ''ASP.NET'', ''PHP'',
    ''Ruby on Rails'', ''Django'', ''Flask'', ''Spring'', ''Laravel'', ''Symfony'',
    ''Express'', ''ASP.NET'', ''asp.net'', ''.net'', ''.NET'', ''dotnet'', ''asp'']"

section \<open>The libraries and the world\<close>

text \<open>
  The PDF library, the entity recognizer, \<^verbatim>\<open>difflib\<close> and the operating system are
  not part of the program.  What a call to them returns is a parameter of the model; a
  call that raises returns \<open>Inl\<close> of the exception.  Every exception of the model is
  an instance of Python's \<^verbatim>\<open>Exception\<close>, so every \<^verbatim>\<open>except Exception\<close> catches it;
  the argument is the message \<^verbatim>\<open>str(e)\<close>, for \<open>NameError\<close> the unbound name.
\<close>

datatype exn = Exception string | NameError string

fun str_exn :: "exn \<Rightarrow> string" where
  "str_exn (Exception msg) = msg"
| "str_exn (NameError name) = ''name '' @ [CHR 0x27] @ name @ [CHR 0x27] @ '' is not defined''"

type_synonym path = string

text \<open>A rectangle of the PDF library; its coordinates are floats, idealised as reals.\<close>

record rect =
  x0 :: real
  y0 :: real
  x1 :: real
  y1 :: real

type_synonym colour = "nat \<times> nat \<times> nat"

text \<open>A result of the recognizer: the entity type and the span in the analysed text.\<close>

record recognizer_result =
  entity_type :: string
  start :: nat
  end' :: nat

type_synonym analyzer = "string \<Rightarrow> string list \<Rightarrow> string \<Rightarrow> exn + recognizer_result list"

text \<open>The calls made to the libraries, in the order in which they are made.\<close>

datatype call =
    Analyze string "string list" string
  | SearchFor nat string
  | AddRedactAnnot nat rect colour
  | ApplyRedactions nat
  | Save path
  | Close
  | Copy2 path path
  | Makedirs path

text \<open>
  A page answers \<^verbatim>\<open>get_text()\<close> and \<^verbatim>\<open>search_for(text)\<close>; \<^verbatim>\<open>add_redact_annot\<close>
  and \<^verbatim>\<open>apply_redactions\<close> return nothing and may raise.  A document is its pages,
  what \<^verbatim>\<open>save(path)\<close> writes after the calls made so far, and whether \<^verbatim>\<open>close()\<close>
  raises.
\<close>

record page =
  get_text :: "exn + string"
  search_for :: "string \<Rightarrow> exn + rect list"
  add_redact_annot :: "rect \<Rightarrow> colour \<Rightarrow> exn option"
  apply_redactions :: "exn option"

record document =
  pages :: "page list"
  save :: "call list \<Rightarrow> path \<Rightarrow> exn + string"
  close :: "exn option"

text \<open>
  The world that the program changes: the content of the files, the directories, the lines
  printed, and the log of the calls.  The libraries of \<^verbatim>\<open>redact.py\<close>: what
  \<^verbatim>\<open>fitz.open\<close> returns for a path, given the files; the similarity ratio of
  \<^verbatim>\<open>SequenceMatcher\<close>; what \<^verbatim>\<open>os.listdir\<close> and \<^verbatim>\<open>shutil.copy2\<close> return,
  given the files and the directories; whether \<^verbatim>\<open>os.makedirs\<close> raises, and what; and
  the analyzer that \<^verbatim>\<open>setup_presidio()\<close> returns.  When and why the operating
  system refuses a copy or a directory (a missing source or destination directory, two
  names of one file, a path below a file, permissions) is not the program's business: it is
  left to the parameter.
\<close>

record world =
  files :: "path \<rightharpoonup> string"
  dirs :: "path set"
  stdout :: "string list"
  calls :: "call list"

record lib =
  fitz_open :: "(path \<rightharpoonup> string) \<Rightarrow> path \<Rightarrow> exn + document"
  ratio :: "string \<Rightarrow> string \<Rightarrow> real"
  listdir :: "(path \<rightharpoonup> string) \<Rightarrow> path set \<Rightarrow> path \<Rightarrow> exn + string list"
  shutil_copy2 :: "(path \<rightharpoonup> string) \<Rightarrow> path set \<Rightarrow> path \<Rightarrow> path \<Rightarrow> exn + path"
  os_makedirs :: "(path \<rightharpoonup> string) \<Rightarrow> path set \<Rightarrow> path \<Rightarrow> exn option"
  setup_presidio :: analyzer

definition print :: "string \<Rightarrow> world \<Rightarrow> world" where
  "print line w = w\<lparr>stdout := stdout w @ [line]\<rparr>"

definition log_call :: "call \<Rightarrow> world \<Rightarrow> world" where
  "log_call c w = w\<lparr>calls := calls w @ [c]\<rparr>"

text \<open>
  \<^verbatim>\<open>shutil.copy2(src, dst)\<close> raises when the source is not an existing file.  For an
  existing source the library says whether the call raises and, when it does not, the path
  of the file written, which is what the call returns: the destination, or the file of the
  source's name inside it when the destination is a directory.  That file has then received
  the content of the source.
\<close>

definition copy2 :: "lib \<Rightarrow> path \<Rightarrow> path \<Rightarrow> world \<Rightarrow> (exn + path) \<times> world" where
  "copy2 l src dst w =
     (let w' = log_call (Copy2 src dst) w in
      case files w src of
        None \<Rightarrow> (Inl (Exception (''No such file or directory: '' @ src)), w')
      | Some content \<Rightarrow>
          (case shutil_copy2 l (files w) (dirs w) src dst of
             Inl e \<Rightarrow> (Inl e, w')
           | Inr written \<Rightarrow> (Inr written, w'\<lparr>files := (files w')(written \<mapsto> content)\<rparr>)))"

text \<open>\<^verbatim>\<open>str(n)\<close> for a natural number: its decimal digits.\<close>

fun str_nat :: "nat \<Rightarrow> string" where
  "str_nat n =
     (if n < 10 then [char_of (48 + n)] else str_nat (n div 10) @ [char_of (48 + n mod 10)])"

declare str_nat.simps [simp del]

text \<open>\<^verbatim>\<open>xs[i:j]\<close> for indices that are not negative.\<close>

definition slice :: "'a list \<Rightarrow> nat \<Rightarrow> nat \<Rightarrow> 'a list" where
  "slice xs i j = drop i (take j xs)"

section \<open>\<^verbatim>\<open>redact_pdf\<close>\<close>

definition find_text_on_page :: "page \<Rightarrow> string \<Rightarrow> exn + rect list" where
  "find_text_on_page page text = search_for page (strip text)"

definition similar :: "(string \<Rightarrow> string \<Rightarrow> real) \<Rightarrow> string \<Rightarrow> string \<Rightarrow> real" where
  "similar seq_ratio a b = seq_ratio (lower a) (lower b)"

definition entities_to_detect :: "string list" where
  "entities_to_detect = [''PERSON'', ''EMAIL_ADDRESS'', ''PHONE_NUMBER'', ''URL'']"

definition page_error :: "string \<Rightarrow> nat \<Rightarrow> path \<Rightarrow> exn \<Rightarrow> string" where
  "page_error what page_num pdf_path e =
     what @ '' page '' @ str_nat page_num @ '' of '' @ pdf_path @ '': '' @ str_exn e"

subsection \<open>First pass: the detected entities\<close>

text \<open>
  \<open>all_results\<close> holds the page number, the recognizer's result and the entity text;
  \<open>found_persons\<close> the texts of the entities of type \<^verbatim>\<open>PERSON\<close>.
\<close>

type_synonym collected = "(nat \<times> recognizer_result \<times> string) list \<times> string list"

fun collect_results ::
  "string set \<Rightarrow> nat \<Rightarrow> string \<Rightarrow> recognizer_result list \<Rightarrow> collected \<Rightarrow> collected" where
  "collect_results ignore_terms page_num text [] acc = acc"
| "collect_results ignore_terms page_num text (result # rest) (all_results, found_persons) =
     (let entity_text = slice text (start result) (end' result);
          entity_type = entity_type result
      in if should_ignore entity_text ignore_terms (Some entity_type)
         then collect_results ignore_terms page_num text rest (all_results, found_persons)
         else collect_results ignore_terms page_num text rest
                (all_results @ [(page_num, result, entity_text)],
                 if entity_type = ''PERSON'' then found_persons @ [entity_text]
                 else found_persons))"

fun first_pass ::
  "analyzer \<Rightarrow> path \<Rightarrow> string set \<Rightarrow> nat \<Rightarrow> page list \<Rightarrow> collected \<Rightarrow> world
     \<Rightarrow> collected \<times> world" where
  "first_pass analyzer pdf_path ignore_terms page_num [] acc w = (acc, w)"
| "first_pass analyzer pdf_path ignore_terms page_num (page # rest) acc w =
     (case get_text page of
        Inl e \<Rightarrow>
          first_pass analyzer pdf_path ignore_terms (Suc page_num) rest acc
            (print (page_error ''Error processing'' page_num pdf_path e) w)
      | Inr text \<Rightarrow>
          (let w' = log_call (Analyze text entities_to_detect ''en'') w in
           case analyzer text entities_to_detect ''en'' of
             Inl e \<Rightarrow>
               first_pass analyzer pdf_path ignore_terms (Suc page_num) rest acc
                 (print (page_error ''Error processing'' page_num pdf_path e) w')
           | Inr analyzer_results \<Rightarrow>
               first_pass analyzer pdf_path ignore_terms (Suc page_num) rest
                 (collect_results ignore_terms page_num text analyzer_results acc) w'))"

subsection \<open>Second pass: the name variants\<close>

text \<open>
  \<open>name_variants\<close> is a dictionary whose values are all \<^verbatim>\<open>True\<close>: the model keeps
  its keys, in the order of insertion.
\<close>

definition dict_set :: "string list \<Rightarrow> string \<Rightarrow> string list" where
  "dict_set d k = (if k \<in> set d then d else d @ [k])"

fun check_persons ::
  "(string \<Rightarrow> string \<Rightarrow> real) \<Rightarrow> string \<Rightarrow> string list \<Rightarrow> string list \<Rightarrow> string list" where
  "check_persons seq_ratio potential_name [] name_variants = name_variants"
| "check_persons seq_ratio potential_name (person # rest) name_variants =
     check_persons seq_ratio potential_name rest
       (if length person \<ge> 8 then
          (let similarity = similar seq_ratio potential_name person in
           if similarity > 0.8 \<and> similarity < 1.0 \<and> lower potential_name \<noteq> lower person
           then dict_set name_variants potential_name
           else name_variants)
        else name_variants)"

fun check_lengths ::
  "(string \<Rightarrow> string \<Rightarrow> real) \<Rightarrow> string list \<Rightarrow> nat \<Rightarrow> nat list \<Rightarrow> string list \<Rightarrow> string list
     \<Rightarrow> string list" where
  "check_lengths seq_ratio words i [] found_persons name_variants = name_variants"
| "check_lengths seq_ratio words i (name_length # rest) found_persons name_variants =
     check_lengths seq_ratio words i rest found_persons
       (if i + name_length \<le> length words then
          (let potential_name = join '' '' (slice words i (i + name_length)) in
           if length potential_name < 8 then name_variants
           else check_persons seq_ratio potential_name found_persons name_variants)
        else name_variants)"

fun scan_words ::
  "(string \<Rightarrow> string \<Rightarrow> real) \<Rightarrow> string list \<Rightarrow> nat list \<Rightarrow> string list \<Rightarrow> string list
     \<Rightarrow> string list" where
  "scan_words seq_ratio words [] found_persons name_variants = name_variants"
| "scan_words seq_ratio words (i # rest) found_persons name_variants =
     scan_words seq_ratio words rest found_persons
       (check_lengths seq_ratio words i [2, 3, 4] found_persons name_variants)"

fun second_pass ::
  "(string \<Rightarrow> string \<Rightarrow> real) \<Rightarrow> path \<Rightarrow> string list \<Rightarrow> nat \<Rightarrow> page list \<Rightarrow> string list \<Rightarrow> world
     \<Rightarrow> string list \<times> world" where
  "second_pass seq_ratio pdf_path found_persons page_num [] name_variants w = (name_variants, w)"
| "second_pass seq_ratio pdf_path found_persons page_num (page # rest) name_variants w =
     (case get_text page of
        Inl e \<Rightarrow>
          second_pass seq_ratio pdf_path found_persons (Suc page_num) rest name_variants
            (print (page_error ''Error processing'' page_num pdf_path e) w)
      | Inr text \<Rightarrow>
          (let words = split text in
           second_pass seq_ratio pdf_path found_persons (Suc page_num) rest
             (scan_words seq_ratio words [0..<length words] found_persons name_variants) w))"

subsection \<open>Third pass: the redaction\<close>

definition enlarge :: "rect \<Rightarrow> rect" where
  "enlarge r = r\<lparr>x0 := x0 r - 2, y0 := y0 r - 2, x1 := x1 r + 2, y1 := y1 r + 2\<rparr>"

definition black :: colour where
  "black = (0, 0, 0)"

text \<open>
  The loops of the redaction pass run inside the \<^verbatim>\<open>try\<close> of their page: the first
  call that raises ends them, \<open>Some\<close> of the exception is the result.
\<close>

fun redact_rects :: "page \<Rightarrow> nat \<Rightarrow> rect list \<Rightarrow> world \<Rightarrow> exn option \<times> world" where
  "redact_rects page page_num [] w = (None, w)"
| "redact_rects page page_num (r # rest) w =
     (let r' = enlarge r;
          w' = log_call (AddRedactAnnot page_num r' black) w
      in case add_redact_annot page r' black of
           Some e \<Rightarrow> (Some e, w')
         | None \<Rightarrow> redact_rects page page_num rest w')"

definition redact_text :: "page \<Rightarrow> nat \<Rightarrow> string \<Rightarrow> world \<Rightarrow> exn option \<times> world" where
  "redact_text page page_num text w =
     (let w' = log_call (SearchFor page_num (strip text)) w in
      case find_text_on_page page text of
        Inl e \<Rightarrow> (Some e, w')
      | Inr text_instances \<Rightarrow> redact_rects page page_num text_instances w')"

fun redact_entities ::
  "page \<Rightarrow> nat \<Rightarrow> (nat \<times> recognizer_result \<times> string) list \<Rightarrow> world \<Rightarrow> exn option \<times> world" where
  "redact_entities page page_num [] w = (None, w)"
| "redact_entities page page_num ((page_idx, result, entity_text) # rest) w =
     (if page_idx = page_num then
        (case redact_text page page_num entity_text w of
           (Some e, w') \<Rightarrow> (Some e, w')
         | (None, w') \<Rightarrow> redact_entities page page_num rest w')
      else redact_entities page page_num rest w)"

fun redact_variants :: "page \<Rightarrow> nat \<Rightarrow> string list \<Rightarrow> world \<Rightarrow> exn option \<times> world" where
  "redact_variants page page_num [] w = (None, w)"
| "redact_variants page page_num (variant # rest) w =
     (case redact_text page page_num variant w of
        (Some e, w') \<Rightarrow> (Some e, w')
      | (None, w') \<Rightarrow> redact_variants page page_num rest w')"

definition redact_page ::
  "page \<Rightarrow> nat \<Rightarrow> (nat \<times> recognizer_result \<times> string) list \<Rightarrow> string list \<Rightarrow> world
     \<Rightarrow> exn option \<times> world" where
  "redact_page page page_num all_results name_variants w =
     (case redact_entities page page_num all_results w of
        (Some e, w1) \<Rightarrow> (Some e, w1)
      | (None, w1) \<Rightarrow>
          (case redact_variants page page_num name_variants w1 of
             (Some e, w2) \<Rightarrow> (Some e, w2)
           | (None, w2) \<Rightarrow> (apply_redactions page, log_call (ApplyRedactions page_num) w2)))"

fun third_pass ::
  "path \<Rightarrow> (nat \<times> recognizer_result \<times> string) list \<Rightarrow> string list \<Rightarrow> nat \<Rightarrow> page list \<Rightarrow> world
     \<Rightarrow> world" where
  "third_pass pdf_path all_results name_variants page_num [] w = w"
| "third_pass pdf_path all_results name_variants page_num (page # rest) w =
     (case redact_page page page_num all_results name_variants w of
        (Some e, w') \<Rightarrow>
          third_pass pdf_path all_results name_variants (Suc page_num) rest
            (print (page_error ''Error applying redactions on'' page_num pdf_path e) w')
      | (None, w') \<Rightarrow> third_pass pdf_path all_results name_variants (Suc page_num) rest w')"

subsection \<open>Saving, and the whole function\<close>

text \<open>
  \<^verbatim>\<open>try: save  except: copy the original  finally: close\<close>.  An exception of the copy
  leaves the \<^verbatim>\<open>except\<close> block after \<^verbatim>\<open>close()\<close> has run; an exception of
  \<^verbatim>\<open>close()\<close> replaces whatever was pending.
\<close>

definition save_and_close ::
  "lib \<Rightarrow> document \<Rightarrow> path \<Rightarrow> path \<Rightarrow> world \<Rightarrow> (exn + unit) \<times> world" where
  "save_and_close l pdf_document pdf_path output_path w =
     (let w1 = log_call (Save output_path) w;
          (r, w2) =
            (case save pdf_document (calls w) output_path of
               Inr content \<Rightarrow> (Inr (), w1\<lparr>files := (files w1)(output_path \<mapsto> content)\<rparr>)
             | Inl e \<Rightarrow>
                 (case copy2 l pdf_path output_path
                         (print (''Error saving PDF '' @ output_path @ '': '' @ str_exn e) w1) of
                    (Inl e', w') \<Rightarrow> (Inl e', w')
                  | (Inr u, w') \<Rightarrow>
                      (Inr (),
                       print (''Copied original file to '' @ output_path
                                @ '' due to saving error'') w')));
          w3 = log_call Close w2
      in case close pdf_document of
           Some e \<Rightarrow> (Inl e, w3)
         | None \<Rightarrow> (r, w3))"

definition effective_ignore_terms :: "string set option \<Rightarrow> string set" where
  "effective_ignore_terms ignore_terms =
     (let ignore_terms = (case ignore_terms of None \<Rightarrow> {} | Some terms \<Rightarrow> terms)
      in lower ` ignore_terms \<union> DEFAULT_IGNORE_TERMS)"

text \<open>The body of the outer \<^verbatim>\<open>try\<close>; \<open>Inl\<close> is an exception that leaves it.\<close>

definition redact_pdf_try ::
  "lib \<Rightarrow> path \<Rightarrow> path \<Rightarrow> analyzer \<Rightarrow> string set option \<Rightarrow> world \<Rightarrow> (exn + unit) \<times> world" where
  "redact_pdf_try l pdf_path output_path analyzer ignore_terms w =
     (let ignore_terms = effective_ignore_terms ignore_terms in
      case fitz_open l (files w) pdf_path of
        Inl e \<Rightarrow>
          (case copy2 l pdf_path output_path
                  (print (''Error opening PDF '' @ pdf_path @ '': '' @ str_exn e) w) of
             (Inl e', w') \<Rightarrow> (Inl e', w')
           | (Inr u, w') \<Rightarrow>
               (Inr (),
                print (''Copied original file to '' @ output_path
                         @ '' due to opening error'') w'))
      | Inr pdf_document \<Rightarrow>
          (let ((all_results, found_persons), w1) =
                 first_pass analyzer pdf_path ignore_terms 0 (pages pdf_document) ([], []) w;
               (name_variants, w2) =
                 second_pass (ratio l) pdf_path found_persons 0 (pages pdf_document) [] w1;
               w3 = third_pass pdf_path all_results name_variants 0 (pages pdf_document) w2
           in save_and_close l pdf_document pdf_path output_path w3))"

text \<open>
  The outer handler prints its message and then evaluates \<^verbatim>\<open>traceback.print_exc()\<close>;
  the module does not import \<^verbatim>\<open>traceback\<close>, so the name is unbound.
\<close>

definition redact_pdf ::
  "lib \<Rightarrow> path \<Rightarrow> path \<Rightarrow> analyzer \<Rightarrow> string set option \<Rightarrow> world \<Rightarrow> (exn + unit) \<times> world" where
  "redact_pdf l pdf_path output_path analyzer ignore_terms w =
     (case redact_pdf_try l pdf_path output_path analyzer ignore_terms w of
        (Inl e, w') \<Rightarrow>
          (Inl (NameError ''traceback''),
           print (''Unexpected error processing '' @ pdf_path @ '': '' @ str_exn e) w')
      | (Inr u, w') \<Rightarrow> (Inr (), w'))"

section \<open>\<^verbatim>\<open>process_directory\<close>, \<^verbatim>\<open>parse_ignore_terms\<close> and \<^verbatim>\<open>main\<close>\<close>

text \<open>
  \<^verbatim>\<open>os.makedirs(path, exist_ok=True)\<close>: the library says whether the call raises;
  when it does not, the directory exists.  \<^verbatim>\<open>os.path.join\<close> is the one of POSIX, for
  two components.
\<close>

definition makedirs :: "lib \<Rightarrow> path \<Rightarrow> world \<Rightarrow> (exn + unit) \<times> world" where
  "makedirs l p w =
     (let w' = log_call (Makedirs p) w in
      case os_makedirs l (files w) (dirs w) p of
        Some e \<Rightarrow> (Inl e, w')
      | None \<Rightarrow> (Inr (), w'\<lparr>dirs := insert p (dirs w')\<rparr>))"

definition os_path_join :: "path \<Rightarrow> path \<Rightarrow> path" where
  "os_path_join a b =
     (if prefix ''/'' b then b
      else if a = [] \<or> suffix ''/'' a then a @ b
      else a @ ''/'' @ b)"

fun process_files ::
  "lib \<Rightarrow> path \<Rightarrow> path \<Rightarrow> analyzer \<Rightarrow> string set option \<Rightarrow> nat \<Rightarrow> string list \<Rightarrow> world
     \<Rightarrow> (exn + unit) \<times> world" where
  "process_files l input_dir output_dir analyzer ignore_terms count [] w = (Inr (), w)"
| "process_files l input_dir output_dir analyzer ignore_terms count (filename # rest) w =
     (let count = count + 1 in
      if suffix ''.pdf'' (lower filename) then
        (let input_path = os_path_join input_dir filename;
             output_path = os_path_join output_dir (str_nat count @ ''.pdf'')
         in case redact_pdf l input_path output_path analyzer ignore_terms w of
              (Inl e, w') \<Rightarrow> (Inl e, w')
            | (Inr u, w') \<Rightarrow>
                process_files l input_dir output_dir analyzer ignore_terms count rest w')
      else process_files l input_dir output_dir analyzer ignore_terms count rest w)"

definition process_directory ::
  "lib \<Rightarrow> path \<Rightarrow> path \<Rightarrow> analyzer \<Rightarrow> string set option \<Rightarrow> world \<Rightarrow> (exn + unit) \<times> world" where
  "process_directory l input_dir output_dir analyzer ignore_terms w =
     (case makedirs l output_dir w of
        (Inl e, w') \<Rightarrow> (Inl e, w')
      | (Inr u, w') \<Rightarrow>
          (case listdir l (files w') (dirs w') input_dir of
             Inl e \<Rightarrow> (Inl e, w')
           | Inr filenames \<Rightarrow>
               process_files l input_dir output_dir analyzer ignore_terms 0 filenames w'))"

text \<open>\<^verbatim>\<open>s.split(sep)\<close> for a separator of one character: empty pieces are kept.\<close>

fun split_on :: "char \<Rightarrow> string \<Rightarrow> string list" where
  "split_on sep [] = [[]]"
| "split_on sep (c # cs) =
     (if c = sep then [] # split_on sep cs
      else (case split_on sep cs of
              [] \<Rightarrow> [[c]]
            | piece # pieces \<Rightarrow> (c # piece) # pieces))"

definition parse_ignore_terms :: "string option \<Rightarrow> string set" where
  "parse_ignore_terms ignore_list =
     (case ignore_list of
        None \<Rightarrow> {}
      | Some s \<Rightarrow> if s = [] then {} else strip ` set (split_on CHR '','' s))"

text \<open>The command line, as \<^verbatim>\<open>argparse\<close> returns it.\<close>

record args =
  args_input :: path
  args_output :: path
  args_batch :: bool
  args_ignore :: "string option"
  args_disable_default_ignores :: bool

definition main :: "lib \<Rightarrow> args \<Rightarrow> world \<Rightarrow> (exn + unit) \<times> world" where
  "main l a w =
     (let analyzer = setup_presidio l;
          ignore_terms = parse_ignore_terms (args_ignore a)
      in if args_batch a
         then process_directory l (args_input a) (args_output a) analyzer (Some ignore_terms) w
         else redact_pdf l (args_input a) (args_output a) analyzer (Some ignore_terms) w)"

section \<open>The script \<^verbatim>\<open>extract.py\<close>\<close>

text \<open>
  The script's libraries: \<^verbatim>\<open>pdfplumber\<close> gives, for a path, what
  \<^verbatim>\<open>extract_text()\<close> returns on each page (\<open>None\<close> for a page without text); the
  analyzer and the anonymizer are those of Presidio.
\<close>

record extract_lib =
  pdfplumber_open :: "path \<Rightarrow> exn + string option list"
  analyzer_analyze :: analyzer
  anonymizer_anonymize :: "string \<Rightarrow> recognizer_result list \<Rightarrow> exn + string"

definition extract_text_from_pdf :: "extract_lib \<Rightarrow> path \<Rightarrow> exn + string" where
  "extract_text_from_pdf l pdf_path =
     (case pdfplumber_open l pdf_path of
        Inl e \<Rightarrow> Inl e
      | Inr page_texts \<Rightarrow>
          Inr (join [CHR 0x0A]
                 (concat (map (\<lambda>t. case t of None \<Rightarrow> [] | Some s \<Rightarrow> if s = [] then [] else [s])
                            page_texts))))"

text \<open>\<^verbatim>\<open>open(output_path, 'w', encoding='utf-8')\<close> raises on a directory.\<close>

definition save_to_text_file :: "string \<Rightarrow> path \<Rightarrow> world \<Rightarrow> (exn + unit) \<times> world" where
  "save_to_text_file text output_path w =
     (if output_path \<in> dirs w then (Inl (Exception (''Is a directory: '' @ output_path)), w)
      else (Inr (), w\<lparr>files := (files w)(output_path \<mapsto> text)\<rparr>))"

definition extract_entities :: "string list" where
  "extract_entities = [''PERSON'', ''PHONE_NUMBER'', ''EMAIL_ADDRESS'']"

definition extract_script :: "extract_lib \<Rightarrow> world \<Rightarrow> (exn + unit) \<times> world" where
  "extract_script l w =
     (case extract_text_from_pdf l ''Rares_Florea.pdf'' of
        Inl e \<Rightarrow> (Inl e, w)
      | Inr pdf_text \<Rightarrow>
          (let w1 = log_call (Analyze pdf_text extract_entities ''en'') w in
           case analyzer_analyze l pdf_text extract_entities ''en'' of
             Inl e \<Rightarrow> (Inl e, w1)
           | Inr results \<Rightarrow>
               (case anonymizer_anonymize l pdf_text results of
                  Inl e \<Rightarrow> (Inl e, w1)
                | Inr redacted_text \<Rightarrow>
                    save_to_text_file redacted_text ''redacted_resume.txt'' w1)))"

section \<open>\<^verbatim>\<open>difflib.SequenceMatcher\<close>\<close>

text \<open>
  The similarity ratio is a parameter of the model.  To run the model on examples, this is
  the ratio that \<^verbatim>\<open>SequenceMatcher(None, a, b).ratio()\<close> computes on sequences too short
  for its junk heuristic (fewer than 200 elements): the longest block common to both
  sequences, the earliest in \<open>a\<close> and then in \<open>b\<close> among the longest, then the same
  to the left and to the right of it; the ratio is twice the number of matched elements
  over the sum of the lengths.
\<close>

fun common_prefix_length :: "'a list \<Rightarrow> 'a list \<Rightarrow> nat" where
  "common_prefix_length (x # xs) (y # ys) =
     (if x = y then Suc (common_prefix_length xs ys) else 0)"
| "common_prefix_length xs ys = 0"

definition better_match ::
  "'a list \<Rightarrow> 'a list \<Rightarrow> nat \<times> nat \<Rightarrow> nat \<times> nat \<times> nat \<Rightarrow> nat \<times> nat \<times> nat" where
  "better_match a b = (\<lambda>(i, j) (besti, bestj, bestsize).
     let k = common_prefix_length (drop i a) (drop j b)
     in if k > bestsize then (i, j, k) else (besti, bestj, bestsize))"

definition find_longest_match :: "'a list \<Rightarrow> 'a list \<Rightarrow> nat \<times> nat \<times> nat" where
  "find_longest_match a b =
     fold (better_match a b) (List.product [0..<length a] [0..<length b]) (0, 0, 0)"

function matching_size :: "'a list \<Rightarrow> 'a list \<Rightarrow> nat" where
  "matching_size a b =
     (case find_longest_match a b of
        (i, j, k) \<Rightarrow>
          if k = 0 then 0
          else matching_size (take i a) (take j b) + k
                 + matching_size (drop (i + k) a) (drop (j + k) b))"
  by pat_completeness auto
termination
proof -
  have le1: "common_prefix_length xs ys \<le> length xs" for xs ys :: "'a list"
    by (induction xs ys rule: common_prefix_length.induct) auto
  have le2: "common_prefix_length xs ys \<le> length ys" for xs ys :: "'a list"
    by (induction xs ys rule: common_prefix_length.induct) auto
  have fold_bound: "i + k \<le> length a"
    if "fold (better_match a b) ps (bi, bj, bk) = (i, j, k)" "bi + bk \<le> length a"
    for a b :: "'a list" and ps bi bj bk i j k
    using that
  proof (induction ps arbitrary: bi bj bk)
    case Nil
    then show ?case by simp
  next
    case (Cons p ps)
    obtain pi pj where p: "p = (pi, pj)"
      by (cases p)
    let ?k = "common_prefix_length (drop pi a) (drop pj b)"
    show ?case
    proof (cases "?k > bk")
      case True
      then have "drop pi a \<noteq> []"
        by auto
      then have "pi \<le> length a"
        by auto
      with le1[of "drop pi a" "drop pj b"] have "pi + ?k \<le> length a"
        by auto
      with True Cons.prems Cons.IH[of pi pj ?k] show ?thesis
        by (simp add: p better_match_def Let_def)
    next
      case False
      with Cons.prems Cons.IH[of bi bj bk] show ?thesis
        by (simp add: p better_match_def Let_def)
    qed
  qed
  have bound: "i + k \<le> length a" if "(i, j, k) = find_longest_match a b"
    for a b :: "'a list" and i j k
    using fold_bound[of a b _ 0 0 0 i j k] that by (simp add: find_longest_match_def)
  show ?thesis
    by (relation "measure (\<lambda>(a, b). length a)") (auto dest!: bound)
qed

declare matching_size.simps [simp del]

definition sequence_matcher_ratio :: "'a list \<Rightarrow> 'a list \<Rightarrow> real" where
  "sequence_matcher_ratio a b =
     (let matches = matching_size a b; length = length a + length b
      in if length \<noteq> 0 then 2 * real matches / real length else 1)"

section \<open>Descriptions of the passes\<close>

text \<open>
  What each part of the program is to compute, written without its loops.  The functions
  above are the program; the statements of the last section compare them with these
  descriptions.
\<close>

subsection \<open>The first pass\<close>

text \<open>
  The entries that the results \<open>rs\<close> of the recognizer on the text of page \<open>n\<close>
  leave in \<open>all_results\<close>: those that \<open>should_ignore\<close> rejects, in order.  The texts of
  the entries of type \<^verbatim>\<open>PERSON\<close>.  The entries of a page: none when its text cannot
  be read or the recognizer raises.  The analysis requested for a page.
\<close>

definition kept_results ::
  "string set \<Rightarrow> nat \<Rightarrow> string \<Rightarrow> recognizer_result list \<Rightarrow> (nat \<times> recognizer_result \<times> string) list" where
  "kept_results T n text rs =
     map (\<lambda>r. (n, r, slice text (start r) (end' r)))
       (filter (\<lambda>r. \<not> should_ignore (slice text (start r) (end' r)) T (Some (entity_type r))) rs)"

definition person_texts :: "(nat \<times> recognizer_result \<times> string) list \<Rightarrow> string list" where
  "person_texts all = map (\<lambda>(n, r, t). t) (filter (\<lambda>(n, r, t). entity_type r = ''PERSON'') all)"

definition page_results ::
  "analyzer \<Rightarrow> string set \<Rightarrow> nat \<Rightarrow> page \<Rightarrow> (nat \<times> recognizer_result \<times> string) list" where
  "page_results an T n page =
     (case get_text page of
        Inl e \<Rightarrow> []
      | Inr text \<Rightarrow>
          (case an text entities_to_detect ''en'' of
             Inl e \<Rightarrow> []
           | Inr rs \<Rightarrow> kept_results T n text rs))"



subsection \<open>The second pass\<close>

text \<open>
  A string is a variant of a found person when some found person of length at least 8 has,
  lowercased, a ratio with the lowercased string strictly between 0.8 and 1.0, and a
  different lowercased form.  The
  word groups of a page are its sequences of 2 to 4 consecutive words, joined by a space.
\<close>

definition is_variant :: "(string \<Rightarrow> string \<Rightarrow> real) \<Rightarrow> string list \<Rightarrow> string \<Rightarrow> bool" where
  "is_variant seq_ratio found_persons s \<longleftrightarrow>
     (\<exists>person\<in>set found_persons.
        length person \<ge> 8
        \<and> seq_ratio (lower s) (lower person) > 0.8 \<and> seq_ratio (lower s) (lower person) < 1.0
        \<and> lower person \<noteq> lower s)"

definition word_groups :: "string list \<Rightarrow> string set" where
  "word_groups words =
     {join '' '' (slice words i (i + n)) | i n. 2 \<le> n \<and> n \<le> 4 \<and> i + n \<le> length words}"

subsection \<open>The redaction pass\<close>

text \<open>
  The calls that redacting the text \<open>t\<close> on page \<open>n\<close> is to make: the search for
  the stripped text, then one annotation for each rectangle found, enlarged by 2 on its four
  sides and filled with black.  The texts redacted on page \<open>n\<close>: those of the entities
  collected on that page, then every name variant.  The calls to be made on the page: those
  of its texts, then \<^verbatim>\<open>apply_redactions\<close>.
\<close>

definition rect_trace :: "nat \<Rightarrow> rect list \<Rightarrow> call list" where
  "rect_trace n rects =
     map (\<lambda>r. AddRedactAnnot n \<lparr>x0 = x0 r - 2, y0 = y0 r - 2, x1 = x1 r + 2, y1 = y1 r + 2\<rparr> (0, 0, 0))
       rects"

definition text_trace :: "page \<Rightarrow> nat \<Rightarrow> string \<Rightarrow> call list" where
  "text_trace page n t =
     SearchFor n (strip t) #
       (case search_for page (strip t) of Inl e \<Rightarrow> [] | Inr rects \<Rightarrow> rect_trace n rects)"

definition entity_texts :: "nat \<Rightarrow> (nat \<times> recognizer_result \<times> string) list \<Rightarrow> string list" where
  "entity_texts n all_results =
     map (\<lambda>(page_idx, result, entity_text). entity_text)
       (filter (\<lambda>(page_idx, result, entity_text). page_idx = n) all_results)"

definition page_texts ::
  "nat \<Rightarrow> (nat \<times> recognizer_result \<times> string) list \<Rightarrow> string list \<Rightarrow> string list" where
  "page_texts n all_results name_variants = entity_texts n all_results @ name_variants"

definition page_trace ::
  "page \<Rightarrow> nat \<Rightarrow> (nat \<times> recognizer_result \<times> string) list \<Rightarrow> string list \<Rightarrow> call list" where
  "page_trace page n all_results name_variants =
     concat (map (text_trace page n) (page_texts n all_results name_variants))
     @ [ApplyRedactions n]"



text \<open>
  No call raises on the page: every search returns, every annotation of a rectangle found
  is accepted, and \<^verbatim>\<open>apply_redactions\<close> returns.
\<close>

definition text_quiet :: "page \<Rightarrow> string \<Rightarrow> bool" where
  "text_quiet page t =
     (case search_for page (strip t) of
        Inl e \<Rightarrow> False
      | Inr rects \<Rightarrow> list_all (\<lambda>r. add_redact_annot page (enlarge r) black = None) rects)"

definition page_quiet ::
  "page \<Rightarrow> nat \<Rightarrow> (nat \<times> recognizer_result \<times> string) list \<Rightarrow> string list \<Rightarrow> bool" where
  "page_quiet page n all_results name_variants \<longleftrightarrow>
     list_all (text_quiet page) (page_texts n all_results name_variants)
     \<and> apply_redactions page = None"

text \<open>The calls made on page \<open>n\<close>; a world with more calls in its log.\<close>

fun on_page :: "nat \<Rightarrow> call \<Rightarrow> bool" where
  "on_page n (SearchFor k t) = (k = n)"
| "on_page n (AddRedactAnnot k r c) = (k = n)"
| "on_page n (ApplyRedactions k) = (k = n)"
| "on_page n c = False"

definition logged :: "call list \<Rightarrow> world \<Rightarrow> world" where
  "logged cs w = w\<lparr>calls := calls w @ cs\<rparr>"

subsection \<open>The passes in \<^verbatim>\<open>redact_pdf\<close>, and the batch\<close>

text \<open>
  The three passes as \<open>redact_pdf\<close> runs them on an opened document: each starts from
  the world its predecessor left and takes what its predecessors collected.
\<close>

definition pass1 :: "analyzer \<Rightarrow> path \<Rightarrow> string set option \<Rightarrow> document \<Rightarrow> world \<Rightarrow> collected \<times> world" where
  "pass1 an pdf_path ignore_terms doc w =
     first_pass an pdf_path (effective_ignore_terms ignore_terms) 0 (pages doc) ([], []) w"

definition pass2 ::
  "lib \<Rightarrow> analyzer \<Rightarrow> path \<Rightarrow> string set option \<Rightarrow> document \<Rightarrow> world \<Rightarrow> string list \<times> world" where
  "pass2 l an pdf_path ignore_terms doc w =
     second_pass (ratio l) pdf_path (snd (fst (pass1 an pdf_path ignore_terms doc w))) 0 (pages doc) []
       (snd (pass1 an pdf_path ignore_terms doc w))"

definition pass3 ::
  "lib \<Rightarrow> analyzer \<Rightarrow> path \<Rightarrow> string set option \<Rightarrow> document \<Rightarrow> world \<Rightarrow> world" where
  "pass3 l an pdf_path ignore_terms doc w =
     third_pass pdf_path (fst (fst (pass1 an pdf_path ignore_terms doc w)))
       (fst (pass2 l an pdf_path ignore_terms doc w)) 0 (pages doc)
       (snd (pass2 l an pdf_path ignore_terms doc w))"

text \<open>
  The input and output paths of the files that \<open>process_directory\<close> redacts: the entries
  of the listing are numbered from 1, and those whose lowercased name ends in \<^verbatim>\<open>.pdf\<close>
  are kept with their number.  Running \<open>redact_pdf\<close> on them in order stops at the first
  one that raises.
\<close>

definition pdf_jobs :: "path \<Rightarrow> path \<Rightarrow> string list \<Rightarrow> (path \<times> path) list" where
  "pdf_jobs input_dir output_dir filenames =
     map (\<lambda>(count, filename).
            (os_path_join input_dir filename, os_path_join output_dir (str_nat count @ ''.pdf'')))
       (filter (\<lambda>(count, filename). suffix ''.pdf'' (lower filename)) (enumerate 1 filenames))"

fun run_jobs ::
  "lib \<Rightarrow> analyzer \<Rightarrow> string set option \<Rightarrow> (path \<times> path) list \<Rightarrow> world \<Rightarrow> (exn + unit) \<times> world" where
  "run_jobs l analyzer ignore_terms [] w = (Inr (), w)"
| "run_jobs l analyzer ignore_terms ((input_path, output_path) # jobs) w =
     (case redact_pdf l input_path output_path analyzer ignore_terms w of
        (Inl e, w') \<Rightarrow> (Inl e, w')
      | (Inr u, w') \<Rightarrow> run_jobs l analyzer ignore_terms jobs w')"

section \<open>Examples\<close>

text \<open>
  A document of two pages.  On the first page the recognizer reports a name, the word
  \<^verbatim>\<open>Python\<close> as a name, and one e-mail address twice, as an e-mail address and as a
  URL; on the second page it reports nothing, and misses a misspelt name.  No call on the
  pages raises.  The library opens \<^verbatim>\<open>cv.pdf\<close> when the file exists and nothing else;
  here a copy of an existing file raises only onto itself, and
  \<^verbatim>\<open>makedirs\<close> raises for the empty path and for the path of a file.
  \<^verbatim>\<open>os.path.basename\<close> is the one of POSIX.
\<close>

definition basename :: "path \<Rightarrow> path" where
  "basename p = rev (takeWhile (\<lambda>c. c \<noteq> CHR ''/'') (rev p))"

definition example_page0_text :: string where
  "example_page0_text = ''Jonathan Smith Python developer jasper.smith@gmail.com''"

definition example_page0 :: page where
  "example_page0 =
     \<lparr>get_text = Inr example_page0_text,
      search_for = (\<lambda>t. if t = ''Jonathan Smith'' then Inr [\<lparr>x0 = 72, y0 = 90, x1 = 160, y1 = 104\<rparr>]
                        else if t = ''jasper.smith@gmail.com''
                        then Inr [\<lparr>x0 = 300, y0 = 90, x1 = 420, y1 = 104\<rparr>]
                        else Inr []),
      add_redact_annot = (\<lambda>r c. None),
      apply_redactions = None\<rparr>"

definition example_page1 :: page where
  "example_page1 =
     \<lparr>get_text = Inr ''Reference: Jonathan Smyth'',
      search_for = (\<lambda>t. if t = ''Jonathan Smyth'' then Inr [\<lparr>x0 = 130, y0 = 50, x1 = 215, y1 = 64\<rparr>]
                        else Inr []),
      add_redact_annot = (\<lambda>r c. None),
      apply_redactions = None\<rparr>"

definition example_analyzer :: analyzer where
  "example_analyzer text entities language =
     (if text = example_page0_text then
        Inr [\<lparr>entity_type = ''PERSON'', start = 0, end' = 14\<rparr>,
             \<lparr>entity_type = ''PERSON'', start = 15, end' = 21\<rparr>,
             \<lparr>entity_type = ''EMAIL_ADDRESS'', start = 32, end' = 54\<rparr>,
             \<lparr>entity_type = ''URL'', start = 32, end' = 54\<rparr>]
      else Inr [])"

definition example_document :: document where
  "example_document =
     \<lparr>pages = [example_page0, example_page1],
      save = (\<lambda>cs p. Inr ''redacted''),
      close = None\<rparr>"

definition example_lib :: lib where
  "example_lib =
     \<lparr>fitz_open = (\<lambda>fs p. if p = ''cv.pdf'' \<and> fs p \<noteq> None then Inr example_document
                           else Inl (Exception ''cannot open'')),
      ratio = sequence_matcher_ratio,
      listdir = (\<lambda>fs ds p. Inr []),
      shutil_copy2 = (\<lambda>fs ds src dst.
         if src = dst then Inl (Exception (src @ '' and '' @ dst @ '' are the same file''))
         else if dst \<in> ds then Inr (os_path_join dst (basename src))
         else Inr dst),
      os_makedirs = (\<lambda>fs ds p.
         if p = [] \<or> p \<in> dom fs then Some (Exception (''Cannot create directory: '' @ p))
         else None),
      setup_presidio = example_analyzer\<rparr>"

definition example_world :: world where
  "example_world = \<lparr>files = [''cv.pdf'' \<mapsto> ''original''], dirs = {}, stdout = [], calls = []\<rparr>"

definition example_args :: args where
  "example_args =
     \<lparr>args_input = ''cv.pdf'', args_output = ''out.pdf'', args_batch = False,
      args_ignore = Some ''React, Node'', args_disable_default_ignores = False\<rparr>"

text \<open>
  A page that differs from the second one in the case of a name, and a first page that
  refuses every annotation.
\<close>

definition example_page2 :: page where
  "example_page2 =
     \<lparr>get_text = Inr ''Reference: JONATHAN Smyth'',
      search_for = (\<lambda>t. if t = ''JONATHAN Smyth'' then Inr [\<lparr>x0 = 130, y0 = 50, x1 = 215, y1 = 64\<rparr>]
                        else Inr []),
      add_redact_annot = (\<lambda>r c. None),
      apply_redactions = None\<rparr>"






text \<open>A directory of two entries, the second a file that the library cannot open.\<close>

definition example_batch_lib :: lib where
  "example_batch_lib =
     example_lib\<lparr>listdir := (\<lambda>fs ds p. if p = ''in'' then Inr [''notes.txt'', ''broken.pdf'']
                                   else Inl (Exception ''no such directory''))\<rparr>"

definition example_batch_world :: world where
  "example_batch_world =
     \<lparr>files = [''in/broken.pdf'' \<mapsto> ''not a pdf''], dirs = {''in''}, stdout = [], calls = []\<rparr>"

text \<open>Libraries for \<^verbatim>\<open>extract.py\<close>: four pages, two of them without text.\<close>

definition example_extract_lib :: extract_lib where
  "example_extract_lib =
     \<lparr>pdfplumber_open = (\<lambda>p. Inr [Some ''Jane Doe'', None, Some '''', Some ''jane@doe.org'']),
      analyzer_analyze = (\<lambda>text entities language.
         Inr [\<lparr>entity_type = ''PERSON'', start = 0, end' = 8\<rparr>,
              \<lparr>entity_type = ''EMAIL_ADDRESS'', start = 9, end' = 21\<rparr>]),
      anonymizer_anonymize = (\<lambda>text results. Inr ''<PERSON> <EMAIL_ADDRESS>'')\<rparr>"

section \<open>Properties of the string functions\<close>

lemma replace_single: "replace [c] [] s = filter (\<lambda>x. x \<noteq> c) s"
  by (induction s) auto

lemma normalize_text_filter:
  "normalize_text s =
     filter (\<lambda>c. c \<noteq> CHR ''.'' \<and> c \<noteq> CHR ''-'' \<and> c \<noteq> CHR '' '') (lower s)"
  by (auto simp: normalize_text_def replace_single intro: filter_cong)

lemma isspace_lower_char: "isspace (lower_char c) = isspace c"
  unfolding isspace_def lower_char_def Let_def
  by (auto simp: of_char_of)

lemma lower_char_idem: "lower_char (lower_char c) = lower_char c"
  unfolding lower_char_def Let_def
  by (auto simp: of_char_of)

lemma lower_idem: "lower (lower s) = lower s"
  by (simp add: lower_def lower_char_idem)

lemma split_acc_lower:
  "split_acc (map lower_char w) (map lower_char s) = map (map lower_char) (split_acc w s)"
proof (induction s arbitrary: w)
  case Nil
  then show ?case by simp
next
  case (Cons c s)
  from Cons.IH[of "[]"] Cons.IH[of "w @ [c]"] show ?case
    by (simp add: isspace_lower_char)
qed

lemma split_lower: "split (lower s) = map lower (split s)"
proof -
  have "map lower xs = map (map lower_char) xs" for xs
    by (simp add: lower_def)
  with split_acc_lower[of "[]" s] show ?thesis
    by (simp add: split_def lower_def)
qed

lemma ignore_word_loop_iff:
  "ignore_word_loop T ws \<longleftrightarrow> (\<exists>w\<in>set ws. w \<in> T \<or> normalize_text w \<in> normalize_text ` T)"
  by (induction ws) auto

section \<open>Properties of the passes\<close>

lemma person_texts_append [simp]: "person_texts (xs @ ys) = person_texts xs @ person_texts ys"
  by (simp add: person_texts_def)

lemma person_texts_Nil [simp]: "person_texts [] = []"
  by (simp add: person_texts_def)

lemma collect_results_eq:
  "collect_results T n text rs (all, ps) =
     (all @ kept_results T n text rs, ps @ person_texts (kept_results T n text rs))"
  by (induction rs arbitrary: all ps) (auto simp: kept_results_def person_texts_def Let_def)

lemma first_pass_results:
  "fst (first_pass an pp T k pgs (all, ps) w) =
     (all @ concat (map (\<lambda>(n, page). page_results an T n page) (enumerate k pgs)),
      ps @ person_texts (concat (map (\<lambda>(n, page). page_results an T n page) (enumerate k pgs))))"
proof (induction pgs arbitrary: k all ps w)
  case Nil
  then show ?case by simp
next
  case (Cons page pgs)
  show ?case
    by (simp add: Cons.IH page_results_def collect_results_eq Let_def split: sum.splits)
qed


lemma first_pass_files:
  "files (snd (first_pass an pp T k pgs acc w)) = files w"
proof (induction pgs arbitrary: k acc w)
  case Nil
  then show ?case by simp
next
  case (Cons page pgs)
  show ?case
    by (simp add: Cons.IH Let_def print_def log_call_def split: sum.splits)
qed

lemma first_pass_dirs:
  "dirs (snd (first_pass an pp T k pgs acc w)) = dirs w"
proof (induction pgs arbitrary: k acc w)
  case Nil
  then show ?case by simp
next
  case (Cons page pgs)
  show ?case
    by (simp add: Cons.IH Let_def print_def log_call_def split: sum.splits)
qed

lemma set_dict_set [simp]: "set (dict_set d k) = insert k (set d)"
  by (auto simp: dict_set_def)

lemma set_check_persons:
  "set (check_persons r s ps nv) = set nv \<union> (if is_variant r ps s then {s} else {})"
proof (induction ps arbitrary: nv)
  case Nil
  then show ?case by (simp add: is_variant_def)
next
  case (Cons p ps)
  show ?case
    by (auto simp: Cons.IH is_variant_def similar_def Let_def)
qed

lemma set_check_lengths:
  "set (check_lengths r ws i lens ps nv) =
     set nv \<union> {s. \<exists>n\<in>set lens. i + n \<le> length ws \<and> s = join '' '' (slice ws i (i + n))
                  \<and> length s \<ge> 8 \<and> is_variant r ps s}"
proof (induction lens arbitrary: nv)
  case Nil
  then show ?case by simp
next
  case (Cons n lens)
  show ?case
    by (auto simp: Cons.IH set_check_persons Let_def)
qed

lemma set_scan_words:
  "set (scan_words r ws is ps nv) =
     set nv \<union> {s. \<exists>i\<in>set is. \<exists>n\<in>{2, 3, 4}. i + n \<le> length ws
                  \<and> s = join '' '' (slice ws i (i + n)) \<and> length s \<ge> 8 \<and> is_variant r ps s}"
proof (induction "is" arbitrary: nv)
  case Nil
  then show ?case by simp
next
  case (Cons i "is")
  have "set (scan_words r ws (i # is) ps nv) =
          set (scan_words r ws is ps (check_lengths r ws i [2, 3, 4] ps nv))"
    by simp
  also have "\<dots> = set (check_lengths r ws i [2, 3, 4] ps nv) \<union>
      {s. \<exists>i\<in>set is. \<exists>n\<in>{2, 3, 4}. i + n \<le> length ws
                  \<and> s = join '' '' (slice ws i (i + n)) \<and> length s \<ge> 8 \<and> is_variant r ps s}"
    by (rule Cons.IH)
  also have "set (check_lengths r ws i [2, 3, 4] ps nv) =
     set nv \<union> {s. \<exists>n\<in>{2, 3, 4}. i + n \<le> length ws \<and> s = join '' '' (slice ws i (i + n))
                  \<and> length s \<ge> 8 \<and> is_variant r ps s}"
    unfolding set_check_lengths by simp
  finally show ?case
    by (simp only: list.set bex_Un bex_simps insert_is_Un[of i "set is"]) blast
qed

lemma set_scan_all_words:
  "set (scan_words r ws [0..<length ws] ps nv) =
     set nv \<union> {s \<in> word_groups ws. length s \<ge> 8 \<and> is_variant r ps s}"
proof -
  have E: "(\<exists>i\<in>set [0..<length ws]. \<exists>n\<in>{2, 3, 4}. i + n \<le> length ws \<and> P i n)
        \<longleftrightarrow> (\<exists>i n. 2 \<le> n \<and> n \<le> 4 \<and> i + n \<le> length ws \<and> P i n)" for P
  proof
    assume "\<exists>i\<in>set [0..<length ws]. \<exists>n\<in>{2, 3, 4}. i + n \<le> length ws \<and> P i n"
    then obtain i n where "n \<in> {2, 3, 4::nat}" "i + n \<le> length ws" "P i n"
      by blast
    moreover from this have "2 \<le> n \<and> n \<le> 4"
      by auto
    ultimately show "\<exists>i n. 2 \<le> n \<and> n \<le> 4 \<and> i + n \<le> length ws \<and> P i n"
      by blast
  next
    assume "\<exists>i n. 2 \<le> n \<and> n \<le> 4 \<and> i + n \<le> length ws \<and> P i n"
    then obtain i n where *: "2 \<le> n" "n \<le> 4" "i + n \<le> length ws" "P i n"
      by blast
    then have "i \<in> set [0..<length ws]" "n \<in> {2, 3, 4}"
      by auto
    with * show "\<exists>i\<in>set [0..<length ws]. \<exists>n\<in>{2, 3, 4}. i + n \<le> length ws \<and> P i n"
      by blast
  qed
  show ?thesis
    unfolding set_scan_words word_groups_def E by blast
qed

lemma set_second_pass:
  "set (fst (second_pass r pp ps k pgs nv w)) =
     set nv \<union> {s. \<exists>page\<in>set pgs. \<exists>text. get_text page = Inr text
                  \<and> s \<in> word_groups (split text) \<and> length s \<ge> 8 \<and> is_variant r ps s}"
proof (induction pgs arbitrary: k nv w)
  case Nil
  then show ?case by simp
next
  case (Cons page pgs)
  show ?case
  proof (cases "get_text page")
    case (Inl e)
    then show ?thesis
      by (auto simp: Cons.IH)
  next
    case (Inr t)
    then show ?thesis
      by (auto simp: Cons.IH Let_def set_scan_all_words)
  qed
qed


lemma second_pass_files: "files (snd (second_pass r pp ps k pgs nv w)) = files w"
  by (induction pgs arbitrary: k nv w) (auto simp: Let_def print_def split: sum.splits)

lemma second_pass_dirs: "dirs (snd (second_pass r pp ps k pgs nv w)) = dirs w"
  by (induction pgs arbitrary: k nv w) (auto simp: Let_def print_def split: sum.splits)

lemma logged_Nil [simp]: "logged [] w = w"
  by (simp add: logged_def)

lemma logged_logged [simp]: "logged cs (logged bs w) = logged (bs @ cs) w"
  by (simp add: logged_def)

lemma log_call_logged: "log_call c w = logged [c] w"
  by (simp add: log_call_def logged_def)

lemma enlarge_eq: "enlarge r = \<lparr>x0 = x0 r - 2, y0 = y0 r - 2, x1 = x1 r + 2, y1 = y1 r + 2\<rparr>"
  by (simp add: enlarge_def)

lemma redact_rects_trace:
  "\<exists>cs res. redact_rects page n rects w = (res, logged cs w)
      \<and> prefix cs (rect_trace n rects)
      \<and> (res = None \<longrightarrow> cs = rect_trace n rects)
      \<and> (list_all (\<lambda>r. add_redact_annot page (enlarge r) black = None) rects \<longrightarrow> res = None)"
proof (induction rects arbitrary: w)
  case Nil
  then show ?case by (simp add: rect_trace_def)
next
  case (Cons r rects)
  let ?c = "AddRedactAnnot n (enlarge r) black"
  show ?case
  proof (cases "add_redact_annot page (enlarge r) black")
    case (Some e)
    then have "redact_rects page n (r # rects) w = (Some e, logged [?c] w)"
      by (simp add: Let_def log_call_logged)
    moreover have "prefix [?c] (rect_trace n (r # rects))"
      by (simp add: rect_trace_def enlarge_eq black_def)
    ultimately show ?thesis
      using Some by auto
  next
    case None
    from Cons.IH[of "logged [?c] w"] obtain cs res where
      *: "redact_rects page n rects (logged [?c] w) = (res, logged cs (logged [?c] w))"
         "prefix cs (rect_trace n rects)" "res = None \<longrightarrow> cs = rect_trace n rects"
         "list_all (\<lambda>r. add_redact_annot page (enlarge r) black = None) rects \<longrightarrow> res = None"
      by blast
    have "redact_rects page n (r # rects) w = (res, logged (?c # cs) w)"
      using None * by (simp add: Let_def log_call_logged)
    moreover have "rect_trace n (r # rects) = ?c # rect_trace n rects"
      by (simp add: rect_trace_def enlarge_eq black_def)
    ultimately show ?thesis
      using * None by auto
  qed
qed

lemma redact_text_trace:
  "\<exists>cs res. redact_text page n t w = (res, logged cs w)
      \<and> prefix cs (text_trace page n t)
      \<and> (res = None \<longrightarrow> cs = text_trace page n t)
      \<and> (text_quiet page t \<longrightarrow> res = None)"
proof (cases "search_for page (strip t)")
  case (Inl e)
  then have "redact_text page n t w = (Some e, logged [SearchFor n (strip t)] w)"
    by (simp add: redact_text_def find_text_on_page_def Let_def log_call_logged)
  with Inl show ?thesis
    by (auto simp: text_trace_def text_quiet_def)
next
  case (Inr rects)
  let ?c = "SearchFor n (strip t)"
  from redact_rects_trace[of page n rects "logged [?c] w"] obtain cs res where
    *: "redact_rects page n rects (logged [?c] w) = (res, logged cs (logged [?c] w))"
       "prefix cs (rect_trace n rects)" "res = None \<longrightarrow> cs = rect_trace n rects"
       "list_all (\<lambda>r. add_redact_annot page (enlarge r) black = None) rects \<longrightarrow> res = None"
    by blast
  have "redact_text page n t w = (res, logged (?c # cs) w)"
    using Inr * by (simp add: redact_text_def find_text_on_page_def Let_def log_call_logged)
  with Inr * show ?thesis
    by (auto simp: text_trace_def text_quiet_def)
qed

lemma page_texts_eq: "page_texts n all nv = entity_texts n all @ nv"
  by (simp add: page_texts_def)

lemma redact_step:
  assumes t: "\<exists>cs res. f w = (res, logged cs w) \<and> prefix cs T \<and> (res = None \<longrightarrow> cs = T)
                \<and> (Q \<longrightarrow> res = None)"
      and g: "\<And>w'. \<exists>cs res. g w' = (res, logged cs w') \<and> prefix cs U \<and> (res = None \<longrightarrow> cs = U)
                \<and> (R \<longrightarrow> res = None)"
  shows "\<exists>cs res. (case f w of (Some e, w') \<Rightarrow> (Some e, w') | (None, w') \<Rightarrow> g w') = (res, logged cs w)
            \<and> prefix cs (T @ U) \<and> (res = None \<longrightarrow> cs = T @ U) \<and> (Q \<and> R \<longrightarrow> res = None)"
proof -
  from t obtain cs res where
    f: "f w = (res, logged cs w)" "prefix cs T" "res = None \<longrightarrow> cs = T" "Q \<longrightarrow> res = None"
    by blast
  show ?thesis
  proof (cases res)
    case (Some e)
    with f show ?thesis
      by (auto intro: prefix_prefix)
  next
    case None
    with f have cs: "cs = T"
      by simp
    from g[of "logged T w"] obtain ds res' where
      "g (logged T w) = (res', logged ds (logged T w))" "prefix ds U" "res' = None \<longrightarrow> ds = U"
      "R \<longrightarrow> res' = None"
      by blast
    with f None cs show ?thesis
      by auto
  qed
qed

lemma redact_entities_trace:
  "\<exists>cs res. redact_entities page n all w = (res, logged cs w)
      \<and> prefix cs (concat (map (text_trace page n) (entity_texts n all)))
      \<and> (res = None \<longrightarrow> cs = concat (map (text_trace page n) (entity_texts n all)))
      \<and> (list_all (text_quiet page) (entity_texts n all) \<longrightarrow> res = None)"
proof (induction all arbitrary: w)
  case Nil
  then show ?case by (simp add: entity_texts_def)
next
  case (Cons x all)
  obtain p r t where x: "x = (p, r, t)"
    by (cases x)
  show ?case
  proof (cases "p = n")
    case True
    from redact_step[of "redact_text page n t" w "text_trace page n t" "text_quiet page t"
        "redact_entities page n all" "concat (map (text_trace page n) (entity_texts n all))"
        "list_all (text_quiet page) (entity_texts n all)", OF redact_text_trace Cons.IH]
    show ?thesis
      using True by (simp add: x entity_texts_def)
  next
    case False
    with Cons.IH[of w] show ?thesis
      by (simp add: x entity_texts_def)
  qed
qed

lemma redact_variants_trace:
  "\<exists>cs res. redact_variants page n nv w = (res, logged cs w)
      \<and> prefix cs (concat (map (text_trace page n) nv))
      \<and> (res = None \<longrightarrow> cs = concat (map (text_trace page n) nv))
      \<and> (list_all (text_quiet page) nv \<longrightarrow> res = None)"
proof (induction nv arbitrary: w)
  case Nil
  then show ?case by simp
next
  case (Cons t nv)
  from redact_step[of "redact_text page n t" w "text_trace page n t" "text_quiet page t"
      "redact_variants page n nv" "concat (map (text_trace page n) nv)"
      "list_all (text_quiet page) nv", OF redact_text_trace Cons.IH]
  show ?case
    by simp
qed

lemma redact_page_trace:
  "\<exists>cs res. redact_page page n all nv w = (res, logged cs w)
      \<and> prefix cs (page_trace page n all nv)
      \<and> (page_quiet page n all nv \<longrightarrow> cs = page_trace page n all nv \<and> res = None)"
proof -
  let ?E = "concat (map (text_trace page n) (entity_texts n all))"
  let ?V = "concat (map (text_trace page n) nv)"
  have pt: "page_trace page n all nv = ?E @ ?V @ [ApplyRedactions n]"
    by (simp add: page_trace_def page_texts_eq)
  from redact_entities_trace[of page n all w] obtain cs res where
    e: "redact_entities page n all w = (res, logged cs w)" "prefix cs ?E" "res = None \<longrightarrow> cs = ?E"
       "list_all (text_quiet page) (entity_texts n all) \<longrightarrow> res = None"
    by blast
  show ?thesis
  proof (cases res)
    case (Some e')
    with e show ?thesis
      by (auto simp: redact_page_def pt page_quiet_def page_texts_eq intro: prefix_prefix)
  next
    case None
    with e have cs: "cs = ?E"
      by simp
    from redact_variants_trace[of page n nv "logged ?E w"] obtain ds res' where
      v: "redact_variants page n nv (logged ?E w) = (res', logged ds (logged ?E w))"
         "prefix ds ?V" "res' = None \<longrightarrow> ds = ?V" "list_all (text_quiet page) nv \<longrightarrow> res' = None"
      by blast
    show ?thesis
    proof (cases res')
      case (Some e')
      with e v None cs show ?thesis
        by (auto simp: redact_page_def pt page_quiet_def page_texts_eq intro: prefix_prefix)
    next
      case None': None
      with v have ds: "ds = ?V"
        by simp
      from e v None None' cs ds show ?thesis
        by (auto simp: redact_page_def pt page_quiet_def log_call_logged)
    qed
  qed
qed

lemma calls_logged [simp]: "calls (logged cs w) = calls w @ cs"
  by (simp add: logged_def)

lemma files_logged [simp]: "files (logged cs w) = files w"
  by (simp add: logged_def)

lemma dirs_logged [simp]: "dirs (logged cs w) = dirs w"
  by (simp add: logged_def)

lemma calls_print [simp]: "calls (print s w) = calls w"
  by (simp add: print_def)

lemma dirs_print [simp]: "dirs (print s w) = dirs w"
  by (simp add: print_def)

lemma files_print [simp]: "files (print s w) = files w"
  by (simp add: print_def)

lemma on_page_text_trace: "c \<in> set (text_trace page m t) \<Longrightarrow> on_page n c \<longleftrightarrow> m = n"
  by (auto simp: text_trace_def rect_trace_def split: sum.splits)

lemma on_page_page_trace: "c \<in> set (page_trace page m all nv) \<Longrightarrow> on_page n c \<longleftrightarrow> m = n"
  by (auto simp: page_trace_def dest: on_page_text_trace)


lemma filter_on_page_prefix:
  assumes "prefix cs (page_trace page m all nv)"
  shows "filter (on_page n) cs = (if m = n then cs else [])"
proof -
  from assms have "set cs \<subseteq> set (page_trace page m all nv)"
    by (rule set_mono_prefix)
  then have "\<forall>c\<in>set cs. on_page n c \<longleftrightarrow> m = n"
    using on_page_page_trace by blast
  then show ?thesis
    by (induction cs) auto
qed


lemma third_pass_step:
  obtains cs w1 where
    "third_pass pdf all nv k (page # pgs) w = third_pass pdf all nv (Suc k) pgs w1"
    "calls w1 = calls w @ cs" "files w1 = files w" "dirs w1 = dirs w"
    "prefix cs (page_trace page k all nv)"
    "page_quiet page k all nv \<longrightarrow> cs = page_trace page k all nv"
proof -
  from redact_page_trace[of page k all nv w] obtain cs res where
    *: "redact_page page k all nv w = (res, logged cs w)" "prefix cs (page_trace page k all nv)"
       "page_quiet page k all nv \<longrightarrow> cs = page_trace page k all nv \<and> res = None"
    by blast
  show ?thesis
  proof (cases res)
    case None
    with * show ?thesis
      by (intro that[of "logged cs w" cs]) auto
  next
    case (Some e)
    with * show ?thesis
      by (intro that[of "print (page_error ''Error applying redactions on'' k pdf e) (logged cs w)" cs])
         auto
  qed
qed

lemma third_pass_files: "files (third_pass pdf all nv k pgs w) = files w"
proof (induction pgs arbitrary: k w)
  case Nil
  then show ?case by simp
next
  case (Cons page pgs)
  obtain cs w1 where "third_pass pdf all nv k (page # pgs) w = third_pass pdf all nv (Suc k) pgs w1"
    "files w1 = files w"
    by (rule third_pass_step)
  with Cons.IH[of "Suc k" w1] show ?case
    by simp
qed

lemma third_pass_dirs: "dirs (third_pass pdf all nv k pgs w) = dirs w"
proof (induction pgs arbitrary: k w)
  case Nil
  then show ?case by simp
next
  case (Cons page pgs)
  obtain cs w1 where "third_pass pdf all nv k (page # pgs) w = third_pass pdf all nv (Suc k) pgs w1"
    "dirs w1 = dirs w"
    by (rule third_pass_step)
  with Cons.IH[of "Suc k" w1] show ?case
    by simp
qed


lemma third_pass_page:
  "\<exists>cs. filter (on_page n) (calls (third_pass pdf all nv k pgs w)) = filter (on_page n) (calls w) @ cs
     \<and> (if k \<le> n \<and> n < k + length pgs
        then prefix cs (page_trace (pgs ! (n - k)) n all nv)
             \<and> (page_quiet (pgs ! (n - k)) n all nv \<longrightarrow> cs = page_trace (pgs ! (n - k)) n all nv)
        else cs = [])"
proof (induction pgs arbitrary: k w)
  case Nil
  then show ?case by auto
next
  case (Cons page pgs)
  obtain cs w1 where
    *: "third_pass pdf all nv k (page # pgs) w = third_pass pdf all nv (Suc k) pgs w1"
       "calls w1 = calls w @ cs" "prefix cs (page_trace page k all nv)"
       "page_quiet page k all nv \<longrightarrow> cs = page_trace page k all nv"
    by (rule third_pass_step)
  from Cons.IH[of "Suc k" w1] obtain ds where
    ds: "filter (on_page n) (calls (third_pass pdf all nv (Suc k) pgs w1))
           = filter (on_page n) (calls w1) @ ds"
        "if Suc k \<le> n \<and> n < Suc k + length pgs
         then prefix ds (page_trace (pgs ! (n - Suc k)) n all nv)
              \<and> (page_quiet (pgs ! (n - Suc k)) n all nv
                   \<longrightarrow> ds = page_trace (pgs ! (n - Suc k)) n all nv)
         else ds = []"
    by blast
  show ?case
  proof (cases "n = k")
    case True
    with * ds show ?thesis
      by (simp add: filter_on_page_prefix)
  next
    case False
    then have "(page # pgs) ! (n - k) = pgs ! (n - Suc k)" if "k \<le> n"
    proof -
      from that False have "n - k = Suc (n - Suc k)"
        by simp
      then show ?thesis
        by simp
    qed
    with False * ds show ?thesis
      by (auto simp: filter_on_page_prefix)
  qed
qed













lemma redact_pdf_try_opened:
  assumes "fitz_open l (files w) pdf = Inr doc"
  shows "redact_pdf_try l pdf out an T w = save_and_close l doc pdf out (pass3 l an pdf T doc w)"
  using assms
  by (simp add: redact_pdf_try_def pass1_def pass2_def pass3_def Let_def split: prod.splits)

lemma copy2_calls: "calls (snd (copy2 l src dst w)) = calls w @ [Copy2 src dst]"
  by (simp add: copy2_def Let_def log_call_def split: option.splits sum.splits)

lemma save_and_close_calls:
  "\<exists>tail. calls (snd (save_and_close l doc pdf out w)) = calls w @ tail
      \<and> set tail \<subseteq> {Save out, Copy2 pdf out, Close}"
proof (cases "save doc (calls w) out")
  case (Inl e)
  let ?w1 = "print (''Error saving PDF '' @ out @ '': '' @ str_exn e) (log_call (Save out) w)"
  obtain r w' where c: "copy2 l pdf out ?w1 = (r, w')"
    by (cases "copy2 l pdf out ?w1")
  from copy2_calls[of l pdf out ?w1] c
  have "calls w' = calls w @ [Save out, Copy2 pdf out]"
    by (simp add: log_call_def)
  with Inl c show ?thesis
    by (cases r) (auto simp: save_and_close_def Let_def log_call_def split: option.splits)
next
  case (Inr content)
  then show ?thesis
    by (auto simp: save_and_close_def Let_def log_call_def split: option.splits)
qed

lemma redact_pdf_calls_try:
  "calls (snd (redact_pdf l pdf out an T w)) = calls (snd (redact_pdf_try l pdf out an T w))"
  by (simp add: redact_pdf_def split: prod.splits sum.splits)

lemma redact_pdf_keeps_pass3:
  assumes "fitz_open l (files w) pdf = Inr doc"
  shows "set (calls (pass3 l an pdf T doc w)) \<subseteq> set (calls (snd (redact_pdf l pdf out an T w)))"
proof -
  from save_and_close_calls[of l doc pdf out "pass3 l an pdf T doc w"] obtain tail where
    "calls (snd (save_and_close l doc pdf out (pass3 l an pdf T doc w)))
       = calls (pass3 l an pdf T doc w) @ tail"
    by blast
  with assms show ?thesis
    by (simp add: redact_pdf_calls_try redact_pdf_try_opened)
qed

lemma should_ignore_iff:
  "should_ignore e T t \<longleftrightarrow>
     lower e \<in> T
     \<or> (\<exists>term\<in>T. normalize_text e = normalize_text term)
     \<or> (\<exists>word\<in>set (split e).
           lower word \<in> T \<or> (\<exists>term\<in>T. normalize_text (lower word) = normalize_text term))
     \<or> (t = Some ''URL''
         \<and> (\<exists>tech_term\<in>set [''.net'', ''asp'', ''flask'', ''django'', ''rails''].
               sublist tech_term (lower e)))"
proof -
  have w: "ignore_word_loop T (split (lower e)) \<longleftrightarrow>
      (\<exists>word\<in>set (split e).
           lower word \<in> T \<or> (\<exists>term\<in>T. normalize_text (lower word) = normalize_text term))"
    unfolding ignore_word_loop_iff split_lower by auto
  have u: "list_ex (\<lambda>tech_term. str_in tech_term (lower e)) tech_domain_terms \<longleftrightarrow>
      (\<exists>tech_term\<in>set [''.net'', ''asp'', ''flask'', ''django'', ''rails''].
               sublist tech_term (lower e))"
    unfolding list_ex_iff tech_domain_terms_def str_in_def ..
  have b: "normalize_text e \<in> normalize_text ` T \<longleftrightarrow>
      (\<exists>term\<in>T. normalize_text e = normalize_text term)"
    by auto
  show ?thesis
    unfolding should_ignore_def Let_def w u b by (simp only: if_True if_False split: if_splits) blast
qed

lemma in_kept_results:
  "(n', r, t) \<in> set (kept_results T n text rs) \<longleftrightarrow>
     n' = n \<and> r \<in> set rs \<and> t = slice text (start r) (end' r)
     \<and> \<not> should_ignore t T (Some (entity_type r))"
  by (auto simp: kept_results_def)

lemma in_page_results:
  "(n', r, t) \<in> set (page_results an T n page) \<longleftrightarrow>
     n' = n \<and> (\<exists>text rs. get_text page = Inr text \<and> an text entities_to_detect ''en'' = Inr rs
                 \<and> r \<in> set rs \<and> t = slice text (start r) (end' r)
                 \<and> \<not> should_ignore t T (Some (entity_type r)))"
proof (cases "get_text page")
  case (Inl e)
  then show ?thesis
    by (simp add: page_results_def)
next
  case gt: (Inr page_text)
  show ?thesis
  proof (cases "an page_text entities_to_detect ''en''")
    case (Inl e)
    with gt show ?thesis
      by (simp add: page_results_def)
  next
    case (Inr rs)
    with gt show ?thesis
      by (auto simp: page_results_def in_kept_results)
  qed
qed

lemma in_all_page_results:
  "(n, r, t) \<in> set (concat (map (\<lambda>(n, page). page_results an T n page) (enumerate 0 pgs))) \<longleftrightarrow>
     n < length pgs \<and> (n, r, t) \<in> set (page_results an T n (pgs ! n))"
proof
  assume "(n, r, t) \<in> set (concat (map (\<lambda>(n, page). page_results an T n page) (enumerate 0 pgs)))"
  then obtain m page where m: "(m, page) \<in> set (enumerate 0 pgs)"
    and "(n, r, t) \<in> set (page_results an T m page)"
    by auto
  moreover from this have "n = m"
    by (simp add: in_page_results)
  moreover from m have "m < length pgs" "page = pgs ! m"
    by (auto simp: in_set_enumerate_eq)
  ultimately show "n < length pgs \<and> (n, r, t) \<in> set (page_results an T n (pgs ! n))"
    by simp
next
  assume *: "n < length pgs \<and> (n, r, t) \<in> set (page_results an T n (pgs ! n))"
  then have "(n, pgs ! n) \<in> set (enumerate 0 pgs)"
    by (simp add: in_set_enumerate_eq)
  with * show "(n, r, t) \<in> set (concat (map (\<lambda>(n, page). page_results an T n page) (enumerate 0 pgs)))"
    by force
qed

lemma in_first_pass:
  "(n, r, t) \<in> set (fst (fst (first_pass an pdf T 0 pgs ([], []) w))) \<longleftrightarrow>
     n < length pgs
     \<and> (\<exists>text rs. get_text (pgs ! n) = Inr text \<and> an text entities_to_detect ''en'' = Inr rs
                 \<and> r \<in> set rs \<and> t = slice text (start r) (end' r)
                 \<and> \<not> should_ignore t T (Some (entity_type r)))"
  unfolding first_pass_results fst_conv append_Nil in_all_page_results in_page_results
  by simp

lemma set_person_texts:
  "set (person_texts all) = {t. \<exists>n r. (n, r, t) \<in> set all \<and> entity_type r = ''PERSON''}"
  by (force simp: person_texts_def)

lemma found_persons_first_pass:
  "set (snd (fst (first_pass an pdf T 0 pgs ([], []) w))) =
     {t. \<exists>n r. (n, r, t) \<in> set (fst (fst (first_pass an pdf T 0 pgs ([], []) w)))
                \<and> entity_type r = ''PERSON''}"
  by (simp add: first_pass_results set_person_texts)

lemma in_text_trace_search:
  "SearchFor n s \<in> set (text_trace page m t) \<longleftrightarrow> n = m \<and> s = strip t"
  by (auto simp: text_trace_def rect_trace_def split: sum.splits)

lemma in_page_trace_search:
  "SearchFor n s \<in> set (page_trace page m all nv) \<longleftrightarrow>
     n = m \<and> (\<exists>t. s = strip t \<and> (t \<in> set nv \<or> (\<exists>r. (m, r, t) \<in> set all)))"
  by (auto simp: page_trace_def page_texts_def entity_texts_def in_text_trace_search)

lemma third_pass_searches:
  assumes "SearchFor n s \<in> set (calls (third_pass pdf all nv 0 pgs w))"
  shows "SearchFor n s \<in> set (calls w)
         \<or> (n < length pgs \<and> (\<exists>t. s = strip t \<and> (t \<in> set nv \<or> (\<exists>r. (n, r, t) \<in> set all))))"
proof -
  from third_pass_page[of n pdf all nv 0 pgs w] obtain cs where
    cs: "filter (on_page n) (calls (third_pass pdf all nv 0 pgs w)) = filter (on_page n) (calls w) @ cs"
        "if 0 \<le> n \<and> n < 0 + length pgs
         then prefix cs (page_trace (pgs ! (n - 0)) n all nv)
              \<and> (page_quiet (pgs ! (n - 0)) n all nv \<longrightarrow> cs = page_trace (pgs ! (n - 0)) n all nv)
         else cs = []"
    by blast
  from assms have "SearchFor n s \<in> set (filter (on_page n) (calls (third_pass pdf all nv 0 pgs w)))"
    by simp
  with cs(1) have "SearchFor n s \<in> set (calls w) \<or> SearchFor n s \<in> set cs"
    by auto
  then show ?thesis
  proof
    assume "SearchFor n s \<in> set cs"
    with cs(2) have n: "n < length pgs" and "prefix cs (page_trace (pgs ! n) n all nv)"
      by (auto split: if_splits)
    with \<open>SearchFor n s \<in> set cs\<close> have "SearchFor n s \<in> set (page_trace (pgs ! n) n all nv)"
      using set_mono_prefix by blast
    with n show ?thesis
      by (simp add: in_page_trace_search)
  qed simp
qed

lemma third_pass_quiet_page:
  assumes "n < length pgs" "page_quiet (pgs ! n) n all nv"
  shows "set (page_trace (pgs ! n) n all nv) \<subseteq> set (calls (third_pass pdf all nv 0 pgs w))"
proof -
  from third_pass_page[of n pdf all nv 0 pgs w] assms obtain cs where
    "filter (on_page n) (calls (third_pass pdf all nv 0 pgs w)) = filter (on_page n) (calls w) @ cs"
    "cs = page_trace (pgs ! n) n all nv"
    by auto
  then have "set (page_trace (pgs ! n) n all nv)
      \<subseteq> set (filter (on_page n) (calls (third_pass pdf all nv 0 pgs w)))"
    by simp
  then show ?thesis
    by auto
qed

lemma example_page0_results:
  "page_results example_analyzer (effective_ignore_terms None) 0 example_page0 =
     [(0, \<lparr>entity_type = ''PERSON'', start = 0, end' = 14\<rparr>, ''Jonathan Smith''),
      (0, \<lparr>entity_type = ''EMAIL_ADDRESS'', start = 32, end' = 54\<rparr>, ''jasper.smith@gmail.com'')]"
  by code_simp

lemma example_page1_results: "page_results example_analyzer T n example_page1 = []"
  by (simp add: page_results_def example_page1_def example_analyzer_def example_page0_text_def
      kept_results_def)

lemma example_page2_results: "page_results example_analyzer T n example_page2 = []"
  by (simp add: page_results_def example_page2_def example_analyzer_def example_page0_text_def
      kept_results_def)

lemma example_first_pass_two:
  assumes "page_results example_analyzer (effective_ignore_terms None) (Suc 0) p = []"
  shows "fst (first_pass example_analyzer pdf (effective_ignore_terms None) 0
                [example_page0, p] ([], []) w) =
     ([(0, \<lparr>entity_type = ''PERSON'', start = 0, end' = 14\<rparr>, ''Jonathan Smith''),
       (0, \<lparr>entity_type = ''EMAIL_ADDRESS'', start = 32, end' = 54\<rparr>, ''jasper.smith@gmail.com'')],
      [''Jonathan Smith''])"
  unfolding first_pass_results by (simp add: example_page0_results assms person_texts_def)

lemma example_first_pass:
  "fst (first_pass example_analyzer ''cv.pdf'' (effective_ignore_terms None) 0
          [example_page0, example_page1] ([], []) w) =
     ([(0, \<lparr>entity_type = ''PERSON'', start = 0, end' = 14\<rparr>, ''Jonathan Smith''),
       (0, \<lparr>entity_type = ''EMAIL_ADDRESS'', start = 32, end' = 54\<rparr>, ''jasper.smith@gmail.com'')],
      [''Jonathan Smith''])"
  by (rule example_first_pass_two) (rule example_page1_results)

lemma example_first_pass_caps:
  "fst (first_pass example_analyzer ''cv.pdf'' (effective_ignore_terms None) 0
          [example_page0, example_page2] ([], []) w) =
     ([(0, \<lparr>entity_type = ''PERSON'', start = 0, end' = 14\<rparr>, ''Jonathan Smith''),
       (0, \<lparr>entity_type = ''EMAIL_ADDRESS'', start = 32, end' = 54\<rparr>, ''jasper.smith@gmail.com'')],
      [''Jonathan Smith''])"
  by (rule example_first_pass_two) (rule example_page2_results)

lemma example_caps_words:
  "split ''Reference: JONATHAN Smyth'' = [''Reference:'', ''JONATHAN'', ''Smyth'']"
  "join '' '' (slice [''Reference:'', ''JONATHAN'', ''Smyth''] 1 (1 + 2)) = ''JONATHAN Smyth''"
  by code_simp+

lemma example_caps_ratio:
  "sequence_matcher_ratio (lower ''JONATHAN Smyth'') (lower ''Jonathan Smith'') = 13 / 14"
  "sequence_matcher_ratio ''JONATHAN Smyth'' ''Jonathan Smith'' = 3 / 7"
  "lower ''Jonathan Smith'' \<noteq> lower ''JONATHAN Smyth''"
  by code_simp+

lemma example_url_ignored:
  "should_ignore ''jasper.smith@gmail.com'' (effective_ignore_terms None) (Some ''URL'')"
  by code_simp

lemma example_text_quiet: "text_quiet example_page0 t" "text_quiet example_page1 t"
  by (simp_all add: text_quiet_def example_page0_def example_page1_def)

lemma example_page_quiet:
  "page_quiet example_page0 n all nv" "page_quiet example_page1 n all nv"
  by (simp_all add: page_quiet_def list_all_iff example_text_quiet)
     (simp_all add: example_page0_def example_page1_def)

lemma example_strip: "strip ''jasper.smith@gmail.com'' = ''jasper.smith@gmail.com''"
  "strip ''Jonathan Smyth'' = ''Jonathan Smyth''"
  by code_simp+

lemma example_open:
  "fitz_open example_lib (files example_world) ''cv.pdf'' = Inr example_document"
  by (simp add: example_lib_def example_world_def)

lemma example_pages: "pages example_document = [example_page0, example_page1]"
  by (simp add: example_document_def)






lemma pass3_files: "files (pass3 l an pdf T doc w) = files w"
  by (simp add: pass3_def pass2_def pass1_def third_pass_files second_pass_files first_pass_files)

lemma pass3_dirs: "dirs (pass3 l an pdf T doc w) = dirs w"
  by (simp add: pass3_def pass2_def pass1_def third_pass_dirs second_pass_dirs first_pass_dirs)

lemma copy2_ok:
  assumes "files w src = Some content" "shutil_copy2 l (files w) (dirs w) src dst = Inr written"
  shows "copy2 l src dst w =
           (Inr written, (log_call (Copy2 src dst) w)\<lparr>files := (files w)(written \<mapsto> content)\<rparr>)"
  using assms by (simp add: copy2_def Let_def log_call_def)

lemma copy2_fails:
  "(\<exists>e. fst (copy2 l src dst w) = Inl e) \<longleftrightarrow>
     files w src = None \<or> (\<exists>e. shutil_copy2 l (files w) (dirs w) src dst = Inl e)"
  by (auto simp: copy2_def Let_def split: option.splits sum.splits)

lemma redact_pdf_result:
  "fst (redact_pdf l pdf out an T w) =
     (case fst (redact_pdf_try l pdf out an T w) of
        Inl e \<Rightarrow> Inl (NameError ''traceback'')
      | Inr u \<Rightarrow> Inr ())"
  by (simp add: redact_pdf_def split: prod.splits sum.splits)


lemma redact_pdf_open_fails_copy_ok:
  assumes "fitz_open l (files w) pdf = Inl e" "files w pdf = Some content"
    and "shutil_copy2 l (files w) (dirs w) pdf out = Inr written"
  shows "fst (redact_pdf l pdf out an T w) = Inr ()"
    and "files (snd (redact_pdf l pdf out an T w)) = (files w)(written \<mapsto> content)"
    and "Copy2 pdf out \<in> set (calls (snd (redact_pdf l pdf out an T w)))"
proof -
  let ?w1 = "print (''Error opening PDF '' @ pdf @ '': '' @ str_exn e) w"
  from assms have "copy2 l pdf out ?w1 =
      (Inr written, (log_call (Copy2 pdf out) ?w1)\<lparr>files := (files ?w1)(written \<mapsto> content)\<rparr>)"
    by (intro copy2_ok) simp_all
  with assms show "fst (redact_pdf l pdf out an T w) = Inr ()"
    and "files (snd (redact_pdf l pdf out an T w)) = (files w)(written \<mapsto> content)"
    and "Copy2 pdf out \<in> set (calls (snd (redact_pdf l pdf out an T w)))"
    by (simp_all add: redact_pdf_def redact_pdf_try_def Let_def print_def log_call_def)
qed



lemma redact_pdf_try_open_fails:
  assumes "fitz_open l (files w) pdf = Inl e"
  shows "(\<exists>e'. fst (redact_pdf_try l pdf out an T w) = Inl e') \<longleftrightarrow>
           files w pdf = None \<or> (\<exists>e'. shutil_copy2 l (files w) (dirs w) pdf out = Inl e')"
  using assms
  by (auto simp: redact_pdf_try_def copy2_def Let_def print_def split: option.splits sum.splits)

lemma save_and_close_fails:
  "(\<exists>e'. fst (save_and_close l doc pdf out w) = Inl e') \<longleftrightarrow>
     close doc \<noteq> None
     \<or> ((\<exists>e. save doc (calls w) out = Inl e)
         \<and> (files w pdf = None \<or> (\<exists>e'. shutil_copy2 l (files w) (dirs w) pdf out = Inl e')))"
  by (cases "save doc (calls w) out"; cases "close doc")
     (auto simp: save_and_close_def copy2_def Let_def print_def log_call_def
           split: option.splits sum.splits)

lemma example_open_fails:
  "p \<noteq> ''cv.pdf'' \<Longrightarrow> fitz_open example_lib fs p = Inl (Exception ''cannot open'')"
  by (simp add: example_lib_def)

lemma process_files_jobs:
  "process_files l input_dir output_dir an T count filenames w =
     run_jobs l an T
       (map (\<lambda>(count, filename).
               (os_path_join input_dir filename, os_path_join output_dir (str_nat count @ ''.pdf'')))
          (filter (\<lambda>(count, filename). suffix ''.pdf'' (lower filename))
             (enumerate (Suc count) filenames))) w"
proof (induction filenames arbitrary: count w)
  case Nil
  then show ?case by simp
next
  case (Cons filename filenames)
  show ?case
  proof (cases "suffix ''.pdf'' (lower filename)")
    case False
    then show ?thesis
      by (simp add: Cons.IH)
  next
    case True
    obtain r w' where r: "redact_pdf l (os_path_join input_dir filename)
        (os_path_join output_dir (str_nat (Suc count) @ ''.pdf'')) an T w = (r, w')"
      by (cases "redact_pdf l (os_path_join input_dir filename)
        (os_path_join output_dir (str_nat (Suc count) @ ''.pdf'')) an T w")
    with True show ?thesis
      by (cases r) (simp_all add: Cons.IH)
  qed
qed

lemma process_directory_jobs:
  assumes "os_makedirs l (files w) (dirs w) output_dir = None"
    and "listdir l (files w) (insert output_dir (dirs w)) input_dir = Inr filenames"
  shows "process_directory l input_dir output_dir an T w =
           run_jobs l an T (pdf_jobs input_dir output_dir filenames)
             (w\<lparr>calls := calls w @ [Makedirs output_dir], dirs := insert output_dir (dirs w)\<rparr>)"
  using assms
  by (simp add: process_directory_def makedirs_def Let_def log_call_def process_files_jobs
      pdf_jobs_def)

lemma process_directory_makedirs_fails:
  assumes "os_makedirs l (files w) (dirs w) output_dir = Some e"
  shows "process_directory l input_dir output_dir an T w = (Inl e, log_call (Makedirs output_dir) w)"
  using assms by (simp add: process_directory_def makedirs_def Let_def)



















section \<open>The claims\<close>

text \<open>
  C5.  For every string \<open>s\<close>, \<open>normalize_text s\<close> is \<open>s\<close> lowercased with every
  period, every hyphen and every space removed; \<^verbatim>\<open>ASP.NET\<close> becomes \<^verbatim>\<open>aspnet\<close>; and
  \<open>should_ignore\<close> compares in this normalized form: an entity whose normalized text
  is the normalized text of an ignore term is ignored.
\<close>

theorem normalize_text_spec:
  "normalize_text s =
     filter (\<lambda>c. c \<noteq> CHR ''.'' \<and> c \<noteq> CHR ''-'' \<and> c \<noteq> CHR '' '') (lower s)
   \<and> normalize_text ''ASP.NET'' = ''aspnet''
   \<and> ((\<exists>term\<in>T. normalize_text e = normalize_text term) \<longrightarrow> should_ignore e T t)"
proof (intro conjI impI)
  show "normalize_text s =
     filter (\<lambda>c. c \<noteq> CHR ''.'' \<and> c \<noteq> CHR ''-'' \<and> c \<noteq> CHR '' '') (lower s)"
    by (rule normalize_text_filter)
  show "normalize_text ''ASP.NET'' = ''aspnet''"
    by code_simp
  assume "\<exists>term\<in>T. normalize_text e = normalize_text term"
  then have "normalize_text e \<in> normalize_text ` T"
    by auto
  then show "should_ignore e T t"
    by (simp add: should_ignore_def)
qed

theorem normalize_text_spec_witness:
  "(\<exists>term\<in>{''asp.net''}. normalize_text ''Asp-Net'' = normalize_text term)
   \<and> normalize_text ''Asp-Net'' = ''aspnet''
   \<and> should_ignore ''Asp-Net'' {''asp.net''} None"
proof -
  have h: "\<exists>term\<in>{''asp.net''}. normalize_text ''Asp-Net'' = normalize_text term"
    by code_simp
  have n: "normalize_text ''Asp-Net'' = ''aspnet''"
    by code_simp
  from normalize_text_spec[of "''Asp-Net''" "{''asp.net''}" "''Asp-Net''" None] h
  have "should_ignore ''Asp-Net'' {''asp.net''} None"
    by blast
  with h n show ?thesis
    by blast
qed

text \<open>
  C1, as the code has it.  \<open>should_ignore e T t\<close> holds exactly when (a) \<open>e\<close>
  lowercased is in \<open>T\<close>, or (b) the normalized \<open>e\<close> is the normalized form of a
  term of \<open>T\<close>, or (c) a whitespace-separated word of \<open>e\<close>, lowercased, is in
  \<open>T\<close> or has the normalized form of a term of \<open>T\<close>, or (d) \<open>t\<close> is
  \<^verbatim>\<open>URL\<close> and \<open>e\<close> lowercased contains one of the five technical substrings.  No
  entity collected by the first pass is one that \<open>should_ignore\<close> accepts, and the
  redaction pass searches a page only for the texts of the entities collected on that page
  and for the name variants.
\<close>

theorem should_ignore_spec:
  "(should_ignore e T t \<longleftrightarrow>
      lower e \<in> T
      \<or> (\<exists>term\<in>T. normalize_text e = normalize_text term)
      \<or> (\<exists>word\<in>set (split e).
            lower word \<in> T \<or> (\<exists>term\<in>T. normalize_text (lower word) = normalize_text term))
      \<or> (t = Some ''URL''
          \<and> (\<exists>tech_term\<in>set [''.net'', ''asp'', ''flask'', ''django'', ''rails''].
                sublist tech_term (lower e))))
   \<and> (\<forall>(page_num, result, entity_text)\<in>set (fst (fst (first_pass an pdf T 0 pgs ([], []) w))).
         \<not> should_ignore entity_text T (Some (entity_type result)))
   \<and> (\<forall>n s. SearchFor n s \<in> set (calls (third_pass pdf all_results name_variants 0 pgs w'))
         \<longrightarrow> SearchFor n s \<in> set (calls w')
             \<or> (\<exists>text. s = strip text
                   \<and> (text \<in> set name_variants \<or> (\<exists>result. (n, result, text) \<in> set all_results))))"
proof (intro conjI)
  show "should_ignore e T t \<longleftrightarrow>
      lower e \<in> T
      \<or> (\<exists>term\<in>T. normalize_text e = normalize_text term)
      \<or> (\<exists>word\<in>set (split e).
            lower word \<in> T \<or> (\<exists>term\<in>T. normalize_text (lower word) = normalize_text term))
      \<or> (t = Some ''URL''
          \<and> (\<exists>tech_term\<in>set [''.net'', ''asp'', ''flask'', ''django'', ''rails''].
                sublist tech_term (lower e)))"
    by (rule should_ignore_iff)
  show "\<forall>(page_num, result, entity_text)\<in>set (fst (fst (first_pass an pdf T 0 pgs ([], []) w))).
         \<not> should_ignore entity_text T (Some (entity_type result))"
    using in_first_pass[of _ _ _ an pdf T pgs w] by blast
  show "\<forall>n s. SearchFor n s \<in> set (calls (third_pass pdf all_results name_variants 0 pgs w'))
         \<longrightarrow> SearchFor n s \<in> set (calls w')
             \<or> (\<exists>text. s = strip text
                   \<and> (text \<in> set name_variants \<or> (\<exists>result. (n, result, text) \<in> set all_results)))"
    using third_pass_searches[of _ _ pdf all_results name_variants pgs w'] by blast
qed

theorem should_ignore_spec_witness:
  "sublist ''asp'' (lower ''jasper.smith@gmail.com'')
   \<and> should_ignore ''jasper.smith@gmail.com'' (effective_ignore_terms None) (Some ''URL'')
   \<and> (0, \<lparr>entity_type = ''PERSON'', start = 0, end' = 14\<rparr>, ''Jonathan Smith'')
       \<in> set (fst (fst (first_pass example_analyzer ''cv.pdf'' (effective_ignore_terms None) 0
                           [example_page0, example_page1] ([], []) example_world)))
   \<and> \<not> should_ignore ''Jonathan Smith'' (effective_ignore_terms None) (Some ''PERSON'')
   \<and> SearchFor 1 ''Jonathan Smyth''
       \<in> set (calls (third_pass ''cv.pdf'' [] [''Jonathan Smyth''] 0 [example_page0, example_page1]
                       example_world))
   \<and> (\<exists>text. ''Jonathan Smyth'' = strip text \<and> text \<in> set [''Jonathan Smyth''])"
proof -
  let ?pgs = "[example_page0, example_page1]"
  note spec = should_ignore_spec[of "''jasper.smith@gmail.com''" "effective_ignore_terms None"
      "Some ''URL''" example_analyzer "''cv.pdf''" ?pgs example_world
      "[]" "[''Jonathan Smyth'']" example_world]
  have d: "sublist ''asp'' (lower ''jasper.smith@gmail.com'')"
    by code_simp
  with spec have 1: "should_ignore ''jasper.smith@gmail.com'' (effective_ignore_terms None) (Some ''URL'')"
    by simp
  have m: "(0, \<lparr>entity_type = ''PERSON'', start = 0, end' = 14\<rparr>, ''Jonathan Smith'')
       \<in> set (fst (fst (first_pass example_analyzer ''cv.pdf'' (effective_ignore_terms None) 0
                           ?pgs ([], []) example_world)))"
    unfolding example_first_pass fst_conv by simp
  from spec have "\<forall>(page_num, result, entity_text)
      \<in>set (fst (fst (first_pass example_analyzer ''cv.pdf'' (effective_ignore_terms None) 0
                           ?pgs ([], []) example_world))).
        \<not> should_ignore entity_text (effective_ignore_terms None) (Some (entity_type result))"
    by (elim conjE)
  from bspec[OF this m]
  have 2: "\<not> should_ignore ''Jonathan Smith'' (effective_ignore_terms None) (Some ''PERSON'')"
    by simp
  have "SearchFor 1 ''Jonathan Smyth'' \<in> set (page_trace (?pgs ! 1) 1 [] [''Jonathan Smyth''])"
    by (simp add: in_page_trace_search example_strip)
  with third_pass_quiet_page[of 1 ?pgs "[]" "[''Jonathan Smyth'']" "''cv.pdf''" example_world]
  have s: "SearchFor 1 ''Jonathan Smyth''
       \<in> set (calls (third_pass ''cv.pdf'' [] [''Jonathan Smyth''] 0 ?pgs example_world))"
    by (auto simp: example_page_quiet)
  have nin: "SearchFor 1 ''Jonathan Smyth'' \<notin> set (calls example_world)"
    by (simp add: example_world_def)
  note spec[THEN conjunct2, THEN conjunct2, rule_format, OF s]
  with s nin have 3: "\<exists>text. ''Jonathan Smyth'' = strip text \<and> text \<in> set [''Jonathan Smyth'']"
    by simp
  from d 1 m 2 s 3 show ?thesis
    by blast
qed

text \<open>
  C1 as stated fails in its last part: a result that \<open>should_ignore\<close> accepts can be
  redacted all the same.  In the example document the recognizer reports the span of
  \<^verbatim>\<open>jasper.smith@gmail.com\<close> as a URL and as an e-mail address.  The URL result is
  ignored (\<^verbatim>\<open>jasper\<close> contains \<^verbatim>\<open>asp\<close>), the e-mail result is collected, and the
  redaction pass searches for that text on the page and covers it.
\<close>

theorem ignored_result_redacted:
  "example_analyzer example_page0_text entities_to_detect ''en'' =
     Inr [\<lparr>entity_type = ''PERSON'', start = 0, end' = 14\<rparr>,
          \<lparr>entity_type = ''PERSON'', start = 15, end' = 21\<rparr>,
          \<lparr>entity_type = ''EMAIL_ADDRESS'', start = 32, end' = 54\<rparr>,
          \<lparr>entity_type = ''URL'', start = 32, end' = 54\<rparr>]
   \<and> slice example_page0_text 32 54 = ''jasper.smith@gmail.com''
   \<and> should_ignore ''jasper.smith@gmail.com'' (effective_ignore_terms None) (Some ''URL'')
   \<and> SearchFor 0 ''jasper.smith@gmail.com''
       \<in> set (calls (snd (redact_pdf example_lib ''cv.pdf'' ''out.pdf'' example_analyzer None
                              example_world)))
   \<and> AddRedactAnnot 0 \<lparr>x0 = 298, y0 = 88, x1 = 422, y1 = 106\<rparr> (0, 0, 0)
       \<in> set (calls (snd (redact_pdf example_lib ''cv.pdf'' ''out.pdf'' example_analyzer None
                              example_world)))"
proof -
  let ?all = "[(0, \<lparr>entity_type = ''PERSON'', start = 0, end' = 14\<rparr>, ''Jonathan Smith''),
       (0, \<lparr>entity_type = ''EMAIL_ADDRESS'', start = 32, end' = 54\<rparr>, ''jasper.smith@gmail.com'')]"
  let ?nv = "fst (pass2 example_lib example_analyzer ''cv.pdf'' None example_document example_world)"
  let ?w2 = "snd (pass2 example_lib example_analyzer ''cv.pdf'' None example_document example_world)"
  let ?pgs = "[example_page0, example_page1]"
  have a: "example_analyzer example_page0_text entities_to_detect ''en'' =
     Inr [\<lparr>entity_type = ''PERSON'', start = 0, end' = 14\<rparr>,
          \<lparr>entity_type = ''PERSON'', start = 15, end' = 21\<rparr>,
          \<lparr>entity_type = ''EMAIL_ADDRESS'', start = 32, end' = 54\<rparr>,
          \<lparr>entity_type = ''URL'', start = 32, end' = 54\<rparr>]"
    by (simp add: example_analyzer_def)
  have b: "slice example_page0_text 32 54 = ''jasper.smith@gmail.com''"
    by code_simp
  have p3: "pass3 example_lib example_analyzer ''cv.pdf'' None example_document example_world =
      third_pass ''cv.pdf'' ?all ?nv 0 ?pgs ?w2"
    by (simp only: pass3_def pass1_def example_pages example_first_pass fst_conv)
  have "set (page_trace (?pgs ! 0) 0 ?all ?nv) \<subseteq> set (calls (third_pass ''cv.pdf'' ?all ?nv 0 ?pgs ?w2))"
    by (rule third_pass_quiet_page) (simp_all add: example_page_quiet)
  also have "\<dots> \<subseteq> set (calls (snd (redact_pdf example_lib ''cv.pdf'' ''out.pdf'' example_analyzer None
                              example_world)))"
    unfolding p3[symmetric] by (rule redact_pdf_keeps_pass3) (rule example_open)
  finally have sub: "set (page_trace example_page0 0 ?all ?nv)
      \<subseteq> set (calls (snd (redact_pdf example_lib ''cv.pdf'' ''out.pdf'' example_analyzer None
                              example_world)))"
    by simp
  have "set (text_trace example_page0 0 ''jasper.smith@gmail.com'')
      \<subseteq> set (page_trace example_page0 0 ?all ?nv)"
    by (auto simp: page_trace_def page_texts_def entity_texts_def)
  moreover have "text_trace example_page0 0 ''jasper.smith@gmail.com'' =
      [SearchFor 0 ''jasper.smith@gmail.com'',
       AddRedactAnnot 0 \<lparr>x0 = 298, y0 = 88, x1 = 422, y1 = 106\<rparr> (0, 0, 0)]"
    by (simp add: text_trace_def rect_trace_def example_strip example_page0_def)
  ultimately show ?thesis
    using sub a b example_url_ignored by auto
qed

text \<open>
  C2.  In the second pass, for every page whose text can be read and every sequence of
  \<open>n\<close> consecutive whitespace-separated words of it with \<open>2 \<le> n \<le> 4\<close>, the
  joined sequence is recorded as a name variant exactly when its length is at least 8 and
  some \<^verbatim>\<open>PERSON\<close> entity collected in the first pass has length at least 8, a ratio
  strictly between 0.8 and 1.0 between the lowercased sequence and the lowercased entity,
  and a lowercased form different from the lowercased sequence.
\<close>

theorem name_variants_spec:
  fixes an :: analyzer and seq_ratio :: "string \<Rightarrow> string \<Rightarrow> real"
    and pdf :: path and T :: "string set" and pgs :: "page list" and w :: world
  defines "all_results \<equiv> fst (fst (first_pass an pdf T 0 pgs ([], []) w))"
      and "found_persons \<equiv> snd (fst (first_pass an pdf T 0 pgs ([], []) w))"
      and "name_variants \<equiv>
             fst (second_pass seq_ratio pdf (snd (fst (first_pass an pdf T 0 pgs ([], []) w))) 0 pgs []
                    (snd (first_pass an pdf T 0 pgs ([], []) w)))"
  assumes "page \<in> set pgs" and "get_text page = Inr page_text"
      and "2 \<le> n" and "n \<le> 4" and "i + n \<le> length (split page_text)"
      and "s = join '' '' (slice (split page_text) i (i + n))"
  shows "s \<in> set name_variants \<longleftrightarrow>
           length s \<ge> 8
           \<and> (\<exists>person page_num result.
                 (page_num, result, person) \<in> set all_results \<and> entity_type result = ''PERSON''
                 \<and> length person \<ge> 8
                 \<and> seq_ratio (lower s) (lower person) > 0.8
                 \<and> seq_ratio (lower s) (lower person) < 1.0
                 \<and> lower person \<noteq> lower s)"
proof -
  have fp: "set found_persons =
      {t. \<exists>page_num result. (page_num, result, t) \<in> set all_results \<and> entity_type result = ''PERSON''}"
    unfolding found_persons_def all_results_def by (rule found_persons_first_pass)
  have g: "s \<in> word_groups (split page_text)"
    using assms(6-9) unfolding word_groups_def by blast
  have "s \<in> set name_variants \<longleftrightarrow>
      (\<exists>page\<in>set pgs. \<exists>text. get_text page = Inr text \<and> s \<in> word_groups (split text)
          \<and> length s \<ge> 8 \<and> is_variant seq_ratio found_persons s)"
    unfolding name_variants_def found_persons_def set_second_pass by simp
  also have "\<dots> \<longleftrightarrow> length s \<ge> 8 \<and> is_variant seq_ratio found_persons s"
    using assms(4,5) g by blast
  also have "is_variant seq_ratio found_persons s \<longleftrightarrow>
      (\<exists>person page_num result.
                 (page_num, result, person) \<in> set all_results \<and> entity_type result = ''PERSON''
                 \<and> length person \<ge> 8
                 \<and> seq_ratio (lower s) (lower person) > 0.8
                 \<and> seq_ratio (lower s) (lower person) < 1.0
                 \<and> lower person \<noteq> lower s)"
    unfolding is_variant_def fp by blast
  finally show ?thesis .
qed

text \<open>
  The name on the second page is in capitals: the ratio of the lowercased strings is
  13/14, that of the strings as they are is 3/7.
\<close>

theorem name_variants_spec_witness:
  "example_page2 \<in> set [example_page0, example_page2]
   \<and> get_text example_page2 = Inr ''Reference: JONATHAN Smyth''
   \<and> join '' '' (slice (split ''Reference: JONATHAN Smyth'') 1 (1 + 2)) = ''JONATHAN Smyth''
   \<and> sequence_matcher_ratio (lower ''JONATHAN Smyth'') (lower ''Jonathan Smith'') = 13 / 14
   \<and> sequence_matcher_ratio ''JONATHAN Smyth'' ''Jonathan Smith'' = 3 / 7
   \<and> ''JONATHAN Smyth''
       \<in> set (fst (second_pass sequence_matcher_ratio ''cv.pdf''
                      (snd (fst (first_pass example_analyzer ''cv.pdf'' (effective_ignore_terms None) 0
                                   [example_page0, example_page2] ([], []) example_world)))
                      0 [example_page0, example_page2] []
                      (snd (first_pass example_analyzer ''cv.pdf'' (effective_ignore_terms None) 0
                              [example_page0, example_page2] ([], []) example_world))))"
proof -
  have 1: "example_page2 \<in> set [example_page0, example_page2]"
    by simp
  have 2: "get_text example_page2 = Inr ''Reference: JONATHAN Smyth''"
    by (simp add: example_page2_def)
  have 3: "(2::nat) \<le> 2" "(2::nat) \<le> 4"
    by simp_all
  have 4: "1 + 2 \<le> length (split ''Reference: JONATHAN Smyth'')"
    by (simp add: example_caps_words)
  have 5: "''JONATHAN Smyth'' = join '' '' (slice (split ''Reference: JONATHAN Smyth'') 1 (1 + 2))"
    by (simp only: example_caps_words)
  have "(0, \<lparr>entity_type = ''PERSON'', start = 0, end' = 14\<rparr>, ''Jonathan Smith'')
       \<in> set (fst (fst (first_pass example_analyzer ''cv.pdf'' (effective_ignore_terms None) 0
                           [example_page0, example_page2] ([], []) example_world)))"
    unfolding example_first_pass_caps fst_conv by simp
  moreover have "entity_type \<lparr>entity_type = ''PERSON'', start = 0, end' = 14\<rparr> = ''PERSON''"
    "8 \<le> length ''Jonathan Smith''" "8 \<le> length ''JONATHAN Smyth''"
    "sequence_matcher_ratio (lower ''JONATHAN Smyth'') (lower ''Jonathan Smith'') > 0.8"
    "sequence_matcher_ratio (lower ''JONATHAN Smyth'') (lower ''Jonathan Smith'') < 1.0"
    by (simp_all add: example_caps_ratio)
  ultimately have "''JONATHAN Smyth''
       \<in> set (fst (second_pass sequence_matcher_ratio ''cv.pdf''
                      (snd (fst (first_pass example_analyzer ''cv.pdf'' (effective_ignore_terms None) 0
                                   [example_page0, example_page2] ([], []) example_world)))
                      0 [example_page0, example_page2] []
                      (snd (first_pass example_analyzer ''cv.pdf'' (effective_ignore_terms None) 0
                              [example_page0, example_page2] ([], []) example_world))))"
    using example_caps_ratio(3)
    unfolding name_variants_spec[OF 1 2 3 4 5, of sequence_matcher_ratio "''cv.pdf''"
        example_analyzer "effective_ignore_terms None" example_world]
    by blast
  with 1 2 5 example_caps_ratio(1,2) show ?thesis
    by simp
qed











text \<open>
  C10.  The outer handler of \<open>redact_pdf\<close> prints its message and then raises
  \<^verbatim>\<open>NameError\<close> for the name \<^verbatim>\<open>traceback\<close>: whenever an exception leaves the body of
  the outer \<^verbatim>\<open>try\<close>, \<open>redact_pdf\<close> raises this \<^verbatim>\<open>NameError\<close>, and in no other
  case.  An exception leaves the body exactly when the copy of the original raises (after a
  failed opening or a failed save) or \<^verbatim>\<open>close()\<close> raises; the copy raises exactly
  when the input file does not exist or \<^verbatim>\<open>shutil.copy2\<close> refuses it.
\<close>

theorem outer_handler_spec:
  "(fst (redact_pdf_try l pdf out an T w) = Inl e \<longrightarrow>
      redact_pdf l pdf out an T w =
        (Inl (NameError ''traceback''),
         print (''Unexpected error processing '' @ pdf @ '': '' @ str_exn e)
           (snd (redact_pdf_try l pdf out an T w))))
   \<and> (fst (redact_pdf l pdf out an T w) = Inl (NameError ''traceback'')
        \<longleftrightarrow> (\<exists>e'. fst (redact_pdf_try l pdf out an T w) = Inl e'))
   \<and> (fitz_open l (files w) pdf = Inl e0 \<longrightarrow>
        ((\<exists>e'. fst (redact_pdf_try l pdf out an T w) = Inl e') \<longleftrightarrow>
           files w pdf = None \<or> (\<exists>e'. shutil_copy2 l (files w) (dirs w) pdf out = Inl e')))
   \<and> (fitz_open l (files w) pdf = Inr doc \<longrightarrow>
        ((\<exists>e'. fst (redact_pdf_try l pdf out an T w) = Inl e') \<longleftrightarrow>
           close doc \<noteq> None
           \<or> ((\<exists>e. save doc (calls (pass3 l an pdf T doc w)) out = Inl e)
               \<and> (files w pdf = None \<or> (\<exists>e'. shutil_copy2 l (files w) (dirs w) pdf out = Inl e')))))"
proof (intro conjI impI)
  assume "fst (redact_pdf_try l pdf out an T w) = Inl e"
  then show "redact_pdf l pdf out an T w =
        (Inl (NameError ''traceback''),
         print (''Unexpected error processing '' @ pdf @ '': '' @ str_exn e)
           (snd (redact_pdf_try l pdf out an T w)))"
    by (cases "redact_pdf_try l pdf out an T w") (simp add: redact_pdf_def)
next
  show "fst (redact_pdf l pdf out an T w) = Inl (NameError ''traceback'')
        \<longleftrightarrow> (\<exists>e'. fst (redact_pdf_try l pdf out an T w) = Inl e')"
    by (cases "fst (redact_pdf_try l pdf out an T w)") (simp_all add: redact_pdf_result)
next
  assume "fitz_open l (files w) pdf = Inl e0"
  then show "(\<exists>e'. fst (redact_pdf_try l pdf out an T w) = Inl e') \<longleftrightarrow>
           files w pdf = None \<or> (\<exists>e'. shutil_copy2 l (files w) (dirs w) pdf out = Inl e')"
    by (rule redact_pdf_try_open_fails)
next
  assume o: "fitz_open l (files w) pdf = Inr doc"
  show "(\<exists>e'. fst (redact_pdf_try l pdf out an T w) = Inl e') \<longleftrightarrow>
           close doc \<noteq> None
           \<or> ((\<exists>e. save doc (calls (pass3 l an pdf T doc w)) out = Inl e)
               \<and> (files w pdf = None \<or> (\<exists>e'. shutil_copy2 l (files w) (dirs w) pdf out = Inl e')))"
    unfolding redact_pdf_try_opened[OF o] save_and_close_fails pass3_files pass3_dirs ..
qed

theorem outer_handler_spec_witness:
  "fitz_open example_lib (files (example_world\<lparr>files := [''broken.pdf'' \<mapsto> ''not a pdf'']\<rparr>))
     ''broken.pdf'' = Inl (Exception ''cannot open'')
   \<and> shutil_copy2 example_lib (files (example_world\<lparr>files := [''broken.pdf'' \<mapsto> ''not a pdf'']\<rparr>))
       (dirs (example_world\<lparr>files := [''broken.pdf'' \<mapsto> ''not a pdf'']\<rparr>))
       ''broken.pdf'' ''broken.pdf''
       = Inl (Exception ''broken.pdf and broken.pdf are the same file'')
   \<and> redact_pdf example_lib ''broken.pdf'' ''broken.pdf'' example_analyzer None
       (example_world\<lparr>files := [''broken.pdf'' \<mapsto> ''not a pdf'']\<rparr>)
       = (Inl (NameError ''traceback''),
          \<lparr>files = [''broken.pdf'' \<mapsto> ''not a pdf''], dirs = {},
           stdout = [''Error opening PDF broken.pdf: cannot open'',
                     ''Unexpected error processing broken.pdf: broken.pdf and broken.pdf are the same file''],
           calls = [Copy2 ''broken.pdf'' ''broken.pdf'']\<rparr>)"
proof -
  let ?w = "example_world\<lparr>files := [''broken.pdf'' \<mapsto> ''not a pdf'']\<rparr>"
  have o: "fitz_open example_lib (files ?w) ''broken.pdf'' = Inl (Exception ''cannot open'')"
    by (simp add: example_open_fails)
  have c: "shutil_copy2 example_lib (files ?w) (dirs ?w) ''broken.pdf'' ''broken.pdf''
      = Inl (Exception ''broken.pdf and broken.pdf are the same file'')"
    by (simp add: example_lib_def)
  have t: "redact_pdf_try example_lib ''broken.pdf'' ''broken.pdf'' example_analyzer None ?w =
      (Inl (Exception ''broken.pdf and broken.pdf are the same file''),
       log_call (Copy2 ''broken.pdf'' ''broken.pdf'')
         (print ''Error opening PDF broken.pdf: cannot open'' ?w))"
    using o c by (simp add: redact_pdf_try_def copy2_def Let_def)
  note spec = outer_handler_spec[of example_lib "''broken.pdf''" "''broken.pdf''" example_analyzer
      None ?w "Exception ''broken.pdf and broken.pdf are the same file''"
      "Exception ''cannot open''"]
  from spec[THEN conjunct1] t
  have "redact_pdf example_lib ''broken.pdf'' ''broken.pdf'' example_analyzer None ?w =
        (Inl (NameError ''traceback''),
         print (''Unexpected error processing '' @ ''broken.pdf'' @ '': ''
                  @ str_exn (Exception ''broken.pdf and broken.pdf are the same file''))
           (log_call (Copy2 ''broken.pdf'' ''broken.pdf'')
              (print ''Error opening PDF broken.pdf: cannot open'' ?w)))"
    by simp
  with o c show ?thesis
    by (simp add: print_def log_call_def example_world_def)
qed

text \<open>
  C8.  \<open>process_directory\<close> first creates the output directory; when that raises, it
  raises and redacts nothing.  Otherwise it lists the input directory and counts every entry
  from 1; for the entries whose lowercased name ends in \<^verbatim>\<open>.pdf\<close>, in order, it calls
  \<open>redact_pdf\<close> on the entry with the output path \<^verbatim>\<open><count>.pdf\<close> in the output
  directory, \<open>count\<close> being the position of the entry in the listing.  An entry that is
  not a PDF uses up its number: of the entries \<^verbatim>\<open>a.pdf\<close>, \<^verbatim>\<open>notes.txt\<close>,
  \<^verbatim>\<open>B.PDF\<close> the outputs are \<^verbatim>\<open>1.pdf\<close> and \<^verbatim>\<open>3.pdf\<close>.
\<close>

theorem process_directory_spec:
  "(os_makedirs l (files w) (dirs w) output_dir = Some e \<longrightarrow>
      process_directory l input_dir output_dir an T w = (Inl e, log_call (Makedirs output_dir) w))
   \<and> (os_makedirs l (files w) (dirs w) output_dir = None
        \<and> listdir l (files w) (insert output_dir (dirs w)) input_dir = Inr filenames \<longrightarrow>
      process_directory l input_dir output_dir an T w =
        run_jobs l an T (pdf_jobs input_dir output_dir filenames)
          (w\<lparr>calls := calls w @ [Makedirs output_dir], dirs := insert output_dir (dirs w)\<rparr>))
   \<and> pdf_jobs input_dir output_dir filenames =
       map (\<lambda>(count, filename).
              (os_path_join input_dir filename,
               os_path_join output_dir (str_nat count @ ''.pdf'')))
         (filter (\<lambda>(count, filename). suffix ''.pdf'' (lower filename))
            (zip [1..<Suc (length filenames)] filenames))
   \<and> pdf_jobs ''in'' ''out'' [''a.pdf'', ''notes.txt'', ''B.PDF''] =
       [(''in/a.pdf'', ''out/1.pdf''), (''in/B.PDF'', ''out/3.pdf'')]"
proof (intro conjI impI)
  assume "os_makedirs l (files w) (dirs w) output_dir = Some e"
  then show "process_directory l input_dir output_dir an T w
      = (Inl e, log_call (Makedirs output_dir) w)"
    by (rule process_directory_makedirs_fails)
next
  assume "os_makedirs l (files w) (dirs w) output_dir = None
        \<and> listdir l (files w) (insert output_dir (dirs w)) input_dir = Inr filenames"
  then show "process_directory l input_dir output_dir an T w =
           run_jobs l an T (pdf_jobs input_dir output_dir filenames)
             (w\<lparr>calls := calls w @ [Makedirs output_dir], dirs := insert output_dir (dirs w)\<rparr>)"
    by (intro process_directory_jobs) simp_all
next
  show "pdf_jobs input_dir output_dir filenames =
             map (\<lambda>(count, filename).
                    (os_path_join input_dir filename,
                     os_path_join output_dir (str_nat count @ ''.pdf'')))
               (filter (\<lambda>(count, filename). suffix ''.pdf'' (lower filename))
                  (zip [1..<Suc (length filenames)] filenames))"
    by (simp add: pdf_jobs_def enumerate_eq_zip)
  show "pdf_jobs ''in'' ''out'' [''a.pdf'', ''notes.txt'', ''B.PDF''] =
             [(''in/a.pdf'', ''out/1.pdf''), (''in/B.PDF'', ''out/3.pdf'')]"
    by code_simp
qed

theorem process_directory_spec_witness:
  "os_makedirs example_batch_lib (files example_batch_world) (dirs example_batch_world) ''out'' = None
   \<and> listdir example_batch_lib (files example_batch_world) (insert ''out'' (dirs example_batch_world))
       ''in'' = Inr [''notes.txt'', ''broken.pdf'']
   \<and> pdf_jobs ''in'' ''out'' [''notes.txt'', ''broken.pdf''] = [(''in/broken.pdf'', ''out/2.pdf'')]
   \<and> fst (process_directory example_batch_lib ''in'' ''out'' example_analyzer None example_batch_world)
       = Inr ()
   \<and> files (snd (process_directory example_batch_lib ''in'' ''out'' example_analyzer None
                   example_batch_world)) ''out/2.pdf'' = Some ''not a pdf''
   \<and> os_makedirs example_batch_lib (files example_batch_world) (dirs example_batch_world)
       ''in/broken.pdf'' = Some (Exception ''Cannot create directory: in/broken.pdf'')
   \<and> process_directory example_batch_lib ''in'' ''in/broken.pdf'' example_analyzer None
       example_batch_world
       = (Inl (Exception ''Cannot create directory: in/broken.pdf''),
          log_call (Makedirs ''in/broken.pdf'') example_batch_world)"
proof -
  let ?w = "example_batch_world\<lparr>calls := calls example_batch_world @ [Makedirs ''out''],
              dirs := insert ''out'' (dirs example_batch_world)\<rparr>"
  have 1: "os_makedirs example_batch_lib (files example_batch_world) (dirs example_batch_world) ''out''
      = None"
    by (simp add: example_batch_lib_def example_lib_def example_batch_world_def)
  have 2: "listdir example_batch_lib (files example_batch_world)
      (insert ''out'' (dirs example_batch_world)) ''in'' = Inr [''notes.txt'', ''broken.pdf'']"
    by (simp add: example_batch_lib_def)
  have 3: "os_makedirs example_batch_lib (files example_batch_world) (dirs example_batch_world)
       ''in/broken.pdf'' = Some (Exception ''Cannot create directory: in/broken.pdf'')"
    by (simp add: example_batch_lib_def example_lib_def example_batch_world_def)
  have j: "pdf_jobs ''in'' ''out'' [''notes.txt'', ''broken.pdf''] = [(''in/broken.pdf'', ''out/2.pdf'')]"
    by code_simp
  have o: "fitz_open example_batch_lib (files ?w) ''in/broken.pdf'' = Inl (Exception ''cannot open'')"
    by (simp add: example_batch_lib_def example_lib_def)
  have f: "files ?w ''in/broken.pdf'' = Some ''not a pdf''"
    "shutil_copy2 example_batch_lib (files ?w) (dirs ?w) ''in/broken.pdf'' ''out/2.pdf''
       = Inr ''out/2.pdf''"
    by (simp_all add: example_batch_world_def example_batch_lib_def example_lib_def)
  note r = redact_pdf_open_fails_copy_ok[OF o f, of example_analyzer None]
  obtain w' where w': "redact_pdf example_batch_lib ''in/broken.pdf'' ''out/2.pdf'' example_analyzer
      None ?w = (Inr (), w')"
    using r(1) by (cases "redact_pdf example_batch_lib ''in/broken.pdf'' ''out/2.pdf''
      example_analyzer None ?w") simp
  note spec = process_directory_spec[of example_batch_lib example_batch_world _ _ "''in''"
      example_analyzer None]
  from spec[of "''out''" _ "[''notes.txt'', ''broken.pdf'']", THEN conjunct2, THEN conjunct1] 1 2 j w'
  have p: "process_directory example_batch_lib ''in'' ''out'' example_analyzer None example_batch_world
      = (Inr (), w')"
    by simp
  from spec[of "''in/broken.pdf''" "Exception ''Cannot create directory: in/broken.pdf''",
      THEN conjunct1] 3
  have q: "process_directory example_batch_lib ''in'' ''in/broken.pdf'' example_analyzer None
       example_batch_world
       = (Inl (Exception ''Cannot create directory: in/broken.pdf''),
          log_call (Makedirs ''in/broken.pdf'') example_batch_world)"
    by simp
  from p r(2) w' 1 2 3 j q show ?thesis
    by simp
qed

text \<open>
  C7.  The ignore set that \<open>redact_pdf\<close> works with is the caller's terms, lowercased,
  together with \<^verbatim>\<open>DEFAULT_IGNORE_TERMS\<close> (the default terms alone when the caller passes
  none); the first pass filters with this set, so that whatever the caller passes, no
  collected entity is, lowercased, a default term or a lowercased term of the caller.
  \<open>main\<close> does not read \<^verbatim>\<open>args.disable_default_ignores\<close>: it behaves the same whatever
  the flag is.
\<close>

theorem ignore_terms_spec:
  "effective_ignore_terms (Some terms) = lower ` terms \<union> DEFAULT_IGNORE_TERMS
   \<and> effective_ignore_terms None = DEFAULT_IGNORE_TERMS
   \<and> (fitz_open l (files w) pdf = Inr doc \<longrightarrow>
        redact_pdf_try l pdf out an T w = save_and_close l doc pdf out (pass3 l an pdf T doc w))
   \<and> (\<forall>(page_num, result, entity_text)\<in>set (fst (fst (pass1 an pdf T doc w))).
         lower entity_text \<notin> DEFAULT_IGNORE_TERMS
         \<and> (\<forall>ts. T = Some ts \<longrightarrow> lower entity_text \<notin> lower ` ts))
   \<and> main l (a\<lparr>args_disable_default_ignores := b\<rparr>) w' = main l a w'"
proof (intro conjI impI)
  show "effective_ignore_terms (Some terms) = lower ` terms \<union> DEFAULT_IGNORE_TERMS"
    and "effective_ignore_terms None = DEFAULT_IGNORE_TERMS"
    by (simp_all add: effective_ignore_terms_def)
  show "redact_pdf_try l pdf out an T w = save_and_close l doc pdf out (pass3 l an pdf T doc w)"
    if "fitz_open l (files w) pdf = Inr doc"
    using that by (rule redact_pdf_try_opened)
  show "\<forall>(page_num, result, entity_text)\<in>set (fst (fst (pass1 an pdf T doc w))).
         lower entity_text \<notin> DEFAULT_IGNORE_TERMS
         \<and> (\<forall>ts. T = Some ts \<longrightarrow> lower entity_text \<notin> lower ` ts)"
  proof (clarify, intro conjI allI impI)
    fix page_num result entity_text
    assume "(page_num, result, entity_text) \<in> set (fst (fst (pass1 an pdf T doc w)))"
    then have "\<not> should_ignore entity_text (effective_ignore_terms T) (Some (entity_type result))"
      unfolding pass1_def in_first_pass by blast
    then have n: "lower entity_text \<notin> effective_ignore_terms T"
      by (auto simp: should_ignore_def Let_def)
    then show "lower entity_text \<notin> DEFAULT_IGNORE_TERMS"
      by (cases T) (simp_all add: effective_ignore_terms_def)
    show "lower entity_text \<notin> lower ` ts" if "T = Some ts" for ts
      using n that by (simp add: effective_ignore_terms_def)
  qed
  show "main l (a\<lparr>args_disable_default_ignores := b\<rparr>) w' = main l a w'"
    by (simp add: main_def Let_def)
qed

theorem ignore_terms_spec_witness:
  "main example_lib (example_args\<lparr>args_disable_default_ignores := True\<rparr>) example_world
     = main example_lib example_args example_world
   \<and> parse_ignore_terms (args_ignore example_args) = {''React'', ''Node''}
   \<and> effective_ignore_terms (Some {''React'', ''Node''})
       = lower ` {''React'', ''Node''} \<union> DEFAULT_IGNORE_TERMS
   \<and> ''python'' \<in> effective_ignore_terms (Some {''React'', ''Node''})
   \<and> (0, \<lparr>entity_type = ''PERSON'', start = 0, end' = 14\<rparr>, ''Jonathan Smith'')
       \<in> set (fst (fst (pass1 example_analyzer ''cv.pdf'' None example_document example_world)))
   \<and> lower ''Jonathan Smith'' \<notin> DEFAULT_IGNORE_TERMS"
proof -
  note spec = ignore_terms_spec[of "{''React'', ''Node''}" example_lib example_world "''cv.pdf''"
      example_document "''out.pdf''" example_analyzer None True example_args example_world]
  have p: "parse_ignore_terms (args_ignore example_args) = {''React'', ''Node''}"
    unfolding example_args_def by code_simp
  have d: "''python'' \<in> DEFAULT_IGNORE_TERMS"
    by code_simp
  have m: "(0, \<lparr>entity_type = ''PERSON'', start = 0, end' = 14\<rparr>, ''Jonathan Smith'')
       \<in> set (fst (fst (pass1 example_analyzer ''cv.pdf'' None example_document example_world)))"
    unfolding pass1_def example_pages example_first_pass fst_conv by simp
  from spec have "\<forall>(page_num, result, entity_text)
      \<in>set (fst (fst (pass1 example_analyzer ''cv.pdf'' None example_document example_world))).
         lower entity_text \<notin> DEFAULT_IGNORE_TERMS
         \<and> (\<forall>ts. None = Some ts \<longrightarrow> lower entity_text \<notin> lower ` ts)"
    by (elim conjE)
  from bspec[OF this m] have n: "lower ''Jonathan Smith'' \<notin> DEFAULT_IGNORE_TERMS"
    by simp
  from spec p d m n show ?thesis
    by simp
qed

text \<open>
  C9.  The script \<^verbatim>\<open>extract.py\<close> writes no file but \<^verbatim>\<open>redacted_resume.txt\<close>.  When it
  ends normally, it has extracted the text of \<^verbatim>\<open>Rares_Florea.pdf\<close>, analysed it for
  exactly the entity types \<^verbatim>\<open>PERSON\<close>, \<^verbatim>\<open>PHONE_NUMBER\<close> and \<^verbatim>\<open>EMAIL_ADDRESS\<close> in
  language \<^verbatim>\<open>en\<close>, anonymized it with the results, and the file holds the anonymized
  text; it requests no other analysis.
\<close>

theorem extract_script_spec:
  "(\<forall>p. p \<noteq> ''redacted_resume.txt'' \<longrightarrow> files (snd (extract_script l w)) p = files w p)
   \<and> (fst (extract_script l w) = Inr () \<longrightarrow>
        (\<exists>pdf_text results redacted_text.
            extract_text_from_pdf l ''Rares_Florea.pdf'' = Inr pdf_text
            \<and> analyzer_analyze l pdf_text [''PERSON'', ''PHONE_NUMBER'', ''EMAIL_ADDRESS''] ''en''
                = Inr results
            \<and> anonymizer_anonymize l pdf_text results = Inr redacted_text
            \<and> files (snd (extract_script l w)) ''redacted_resume.txt'' = Some redacted_text
            \<and> calls (snd (extract_script l w)) =
                calls w @ [Analyze pdf_text [''PERSON'', ''PHONE_NUMBER'', ''EMAIL_ADDRESS''] ''en'']))
   \<and> (\<forall>text entities language.
         Analyze text entities language \<in> set (calls (snd (extract_script l w))) \<longrightarrow>
         Analyze text entities language \<in> set (calls w)
         \<or> (entities = [''PERSON'', ''PHONE_NUMBER'', ''EMAIL_ADDRESS''] \<and> language = ''en''))"
proof (cases "extract_text_from_pdf l ''Rares_Florea.pdf''")
  case (Inl e)
  then have "extract_script l w = (Inl e, w)"
    by (simp add: extract_script_def)
  then show ?thesis
    by simp
next
  case t: (Inr pdf_text)
  let ?c = "Analyze pdf_text [''PERSON'', ''PHONE_NUMBER'', ''EMAIL_ADDRESS''] ''en''"
  let ?w1 = "w\<lparr>calls := calls w @ [?c]\<rparr>"
  show ?thesis
  proof (cases "analyzer_analyze l pdf_text [''PERSON'', ''PHONE_NUMBER'', ''EMAIL_ADDRESS''] ''en''")
    case (Inl e)
    with t have "extract_script l w = (Inl e, ?w1)"
      by (simp add: extract_script_def extract_entities_def Let_def log_call_def)
    then show ?thesis
      by auto
  next
    case a: (Inr results)
    show ?thesis
    proof (cases "anonymizer_anonymize l pdf_text results")
      case (Inl e)
      with t a have "extract_script l w = (Inl e, ?w1)"
        by (simp add: extract_script_def extract_entities_def Let_def log_call_def)
      then show ?thesis
        by auto
    next
      case r: (Inr redacted_text)
      show ?thesis
      proof (cases "''redacted_resume.txt'' \<in> dirs w")
        case True
        with t a r have "extract_script l w =
            (Inl (Exception ''Is a directory: redacted_resume.txt''), ?w1)"
          by (simp add: extract_script_def extract_entities_def Let_def log_call_def
              save_to_text_file_def)
        then show ?thesis
          by auto
      next
        case False
        with t a r have "extract_script l w =
            (Inr (), ?w1\<lparr>files := (files w)(''redacted_resume.txt'' \<mapsto> redacted_text)\<rparr>)"
          by (simp add: extract_script_def extract_entities_def Let_def log_call_def
              save_to_text_file_def)
        with t a r show ?thesis
          by auto
      qed
    qed
  qed
qed

theorem extract_script_spec_witness:
  "fst (extract_script example_extract_lib example_world) = Inr ()
   \<and> extract_text_from_pdf example_extract_lib ''Rares_Florea.pdf''
       = Inr (''Jane Doe'' @ [CHR 0x0A] @ ''jane@doe.org'')
   \<and> files (snd (extract_script example_extract_lib example_world)) ''redacted_resume.txt''
       = Some ''<PERSON> <EMAIL_ADDRESS>''
   \<and> files (snd (extract_script example_extract_lib example_world)) ''redacted_resume.pdf''
       = files example_world ''redacted_resume.pdf''"
proof -
  note spec = extract_script_spec[of example_extract_lib example_world]
  have t: "extract_text_from_pdf example_extract_lib ''Rares_Florea.pdf''
       = Inr (''Jane Doe'' @ [CHR 0x0A] @ ''jane@doe.org'')"
    by (simp add: extract_text_from_pdf_def example_extract_lib_def)
  have d: "''redacted_resume.txt'' \<notin> dirs example_world"
    by (simp add: example_world_def)
  with t have r: "fst (extract_script example_extract_lib example_world) = Inr ()"
    by (simp add: extract_script_def save_to_text_file_def Let_def log_call_def
        example_extract_lib_def)
  from spec[THEN conjunct2, THEN conjunct1, rule_format, OF r]
  obtain pdf_text results redacted_text where
    "anonymizer_anonymize example_extract_lib pdf_text results = Inr redacted_text"
    "files (snd (extract_script example_extract_lib example_world)) ''redacted_resume.txt''
       = Some redacted_text"
    by (elim exE conjE)
  then have f: "files (snd (extract_script example_extract_lib example_world)) ''redacted_resume.txt''
       = Some ''<PERSON> <EMAIL_ADDRESS>''"
    by (simp add: example_extract_lib_def)
  have "''redacted_resume.pdf'' \<noteq> ''redacted_resume.txt''"
    by simp
  from spec[THEN conjunct1, rule_format, OF this]
  have "files (snd (extract_script example_extract_lib example_world)) ''redacted_resume.pdf''
       = files example_world ''redacted_resume.pdf''" .
  with r t f show ?thesis
    by simp
qed

end
